theory Spec2Isabelle
  imports Main "HOL-Library.Word" "HOL-Library.Sublist"
begin

section \<open>Data model of \<open>project.cc\<close>\<close>

text \<open>
  Modelled from the spec: \<open>Project::Entry\<close> and \<open>Project\<close> are declared in \<open>project.h\<close>,
  which is not among the sources. Their fields are the ones \<open>project.cc\<close> uses and the
  spec lists. An entry is one normalized compiler invocation; it is marked inferred
  only when the inference engine synthesized it.
\<close>

record Entry =
  filename :: string
  args :: "string list"
  is_inferred :: bool

text \<open>
  \<open>Project\<close>: the entry list and the exact-match table from filename to the position
  of the entry in \<open>entries\<close> (\<open>absolute_path_to_entry_index_\<close> in the source).
\<close>

record Project =
  entries :: "Entry list"
  absolute_path_to_entry_index :: "string \<rightharpoonup> nat"

text \<open>
  The default-constructed \<open>Project::Entry\<close>: empty strings, not inferred.
\<close>

definition Entry_default :: Entry where
  "Entry_default = \<lparr>filename = [], args = [], is_inferred = False\<rparr>"

section \<open>Inference: \<open>ComputeGuessScore\<close> and \<open>FindCompilationEntryForFile\<close>\<close>

text \<open>
  The C++ \<open>int\<close> holding the score is a 32-bit two's complement word; \<open>+\<close> and \<open>-\<close> on
  it wrap around and \<open>sint\<close> reads it. Signed overflow is undefined in C++: the
  statements on the score are for strings short enough that none occurs. The loop
  counters \<open>i\<close>, \<open>j\<close> and \<open>offset\<close> never exceed the length of a string by more than
  one, so they are natural numbers.
\<close>

type_synonym cint = "32 word"

definition kMatchPrefixWeight :: cint where
  "kMatchPrefixWeight = 100"

definition kMismatchDirectoryWeight :: cint where
  "kMismatchDirectoryWeight = 100"

definition kMatchPostfixWeight :: cint where
  "kMatchPostfixWeight = 1"

text \<open>
  First loop: \<open>for (i = 0; i < a.length() && i < b.length(); ++i)\<close>, leaving with
  \<open>break\<close> at the first mismatch. Returns the stop index and the score.
\<close>

function prefix_loop :: "string \<Rightarrow> string \<Rightarrow> nat \<Rightarrow> cint \<Rightarrow> nat \<times> cint" where
  "prefix_loop a b i score =
     (if i < length a \<and> i < length b then
        (if a ! i \<noteq> b ! i then (i, score)
         else prefix_loop a b (i + 1) (score + kMatchPrefixWeight))
      else (i, score))"
  by pat_completeness auto
termination
  by (relation "measure (\<lambda>(a, b, i, score). length a - i)") auto

text \<open>
  Second and third loop: \<open>for (int j = i; j < a.length(); ++j)\<close>, subtracting the
  directory weight at every \<open>'/'\<close>.
\<close>

function directory_loop :: "string \<Rightarrow> nat \<Rightarrow> cint \<Rightarrow> cint" where
  "directory_loop a j score =
     (if j < length a then
        directory_loop a (j + 1)
          (if a ! j = CHR ''/'' then score - kMismatchDirectoryWeight else score)
      else score)"
  by pat_completeness auto
termination
  by (relation "measure (\<lambda>(a, j, score). length a - j)") auto

text \<open>
  Last loop: \<open>for (int offset = 1; offset <= a.length() && offset <= b.length(); ++offset)\<close>,
  comparing \<open>a[a.size() - offset]\<close> with \<open>b[b.size() - offset]\<close>.
\<close>

function postfix_loop :: "string \<Rightarrow> string \<Rightarrow> nat \<Rightarrow> cint \<Rightarrow> cint" where
  "postfix_loop a b offset score =
     (if offset \<le> length a \<and> offset \<le> length b then
        (if a ! (length a - offset) \<noteq> b ! (length b - offset) then score
         else postfix_loop a b (offset + 1) (score + kMatchPostfixWeight))
      else score)"
  by pat_completeness auto
termination
  by (relation "measure (\<lambda>(a, b, offset, score). Suc (length a) - offset)") auto

definition ComputeGuessScore :: "string \<Rightarrow> string \<Rightarrow> cint" where
  "ComputeGuessScore a b =
     (case prefix_loop a b 0 0 of (i, score) \<Rightarrow>
        postfix_loop a b 1 (directory_loop b i (directory_loop a i score)))"

text \<open>
  \<open>std::numeric_limits<int>::min()\<close>.
\<close>

definition INT_MIN :: cint where
  "INT_MIN = - (2 ^ 31)"

text \<open>
  The inference loop of \<open>FindCompilationEntryForFile\<close>. The pointer \<open>best_entry\<close> is
  the position of the entry it points to, \<open>nullptr\<close> is \<open>None\<close>; \<open>k\<close> is the
  position of the entry the loop is at. The comparison \<open>score > best_score\<close> is
  the signed one.
\<close>

fun best_entry_loop ::
  "string \<Rightarrow> Entry list \<Rightarrow> nat \<Rightarrow> nat option \<Rightarrow> cint \<Rightarrow> nat option" where
  "best_entry_loop fname [] k best_entry best_score = best_entry"
| "best_entry_loop fname (entry # rest) k best_entry best_score =
     (let score = ComputeGuessScore fname (filename entry) in
      if best_score <s score then best_entry_loop fname rest (k + 1) (Some k) score
      else best_entry_loop fname rest (k + 1) best_entry best_score)"

datatype lookup_error = IndexOutOfRange

text \<open>
  \<open>Project::FindCompilationEntryForFile\<close>. An exact hit returns \<open>entries[it->second]\<close>;
  a position outside \<open>entries\<close>, which \<open>Project::Load\<close> never stores, is the error
  value. A miss synthesizes the inferred entry.
\<close>

definition FindCompilationEntryForFile :: "Project \<Rightarrow> string \<Rightarrow> lookup_error + Entry" where
  "FindCompilationEntryForFile p fname =
     (case absolute_path_to_entry_index p fname of
        Some k \<Rightarrow> (if k < length (entries p) then Inr (entries p ! k) else Inl IndexOutOfRange)
      | None \<Rightarrow>
          (let best_entry = best_entry_loop fname (entries p) 0 None INT_MIN;
               result = Entry_default\<lparr>is_inferred := True, filename := fname\<rparr>
           in Inr (case best_entry of
                     Some k \<Rightarrow> result\<lparr>args := args (entries p ! k)\<rparr>
                   | None \<Rightarrow> result)))"

text \<open>
  The last loop of \<open>Project::Load\<close>:
  \<open>absolute_path_to_entry_index[entries[i].filename] = i\<close> for \<open>i\<close> from \<open>0\<close>.
\<close>

fun index_loop :: "Entry list \<Rightarrow> nat \<Rightarrow> (string \<rightharpoonup> nat) \<Rightarrow> (string \<rightharpoonup> nat)" where
  "index_loop [] i m = m"
| "index_loop (e # es) i m = index_loop es (i + 1) (m(filename e \<mapsto> i))"

definition Project_of_entries :: "Entry list \<Rightarrow> Project" where
  "Project_of_entries es =
     \<lparr>entries = es, absolute_path_to_entry_index = index_loop es 0 Map.empty\<rparr>"

section \<open>The classifier: \<open>GetCompilationEntryFromCompileCommandEntry\<close>\<close>

subsection \<open>Helpers declared in \<open>utils.h\<close> and \<open>platform.h\<close>\<close>

text \<open>
  Modelled from the spec: \<open>StartsWith\<close>, \<open>EndsWith\<close>, \<open>AnyStartsWith\<close> and
  \<open>StartsWithAny\<close> are declared in \<open>utils.h\<close> and their bodies are not among the
  sources. The spec reads them as "starts with" and "ends with": a value starts with
  \<open>start\<close> when \<open>start\<close> is a prefix of it; \<open>AnyStartsWith\<close> asks it of some value of
  a list, \<open>StartsWithAny\<close> of some start of a list.
\<close>

definition StartsWith :: "string \<Rightarrow> string \<Rightarrow> bool" where
  "StartsWith val start = prefix start val"

definition EndsWith :: "string \<Rightarrow> string \<Rightarrow> bool" where
  "EndsWith val ending = suffix ending val"

definition AnyStartsWith :: "string list \<Rightarrow> string \<Rightarrow> bool" where
  "AnyStartsWith vals start = list_ex (\<lambda>val. StartsWith val start) vals"

definition StartsWithAny :: "string \<Rightarrow> string list \<Rightarrow> bool" where
  "StartsWithAny val startings = list_ex (\<lambda>starting. StartsWith val starting) startings"

text \<open>
  Path canonicalization is a collaborator: \<open>NormalizePath\<close> of \<open>platform.h\<close> is a
  parameter, next to the process-wide switch \<open>g_disable_normalize_path_for_test\<close>.
\<close>

record Platform =
  g_disable_normalize_path_for_test :: bool
  NormalizePath :: "string \<Rightarrow> string"

definition NormalizePathWithTestOptOut :: "Platform \<Rightarrow> string \<Rightarrow> string" where
  "NormalizePathWithTestOptOut pf path =
     (if g_disable_normalize_path_for_test pf then ''&'' @ path else NormalizePath pf path)"

text \<open>
  \<open>s[i]\<close> of a \<open>std::string\<close>: the character at \<open>i\<close>, and \<open>'\0'\<close> at
  \<open>i = s.size()\<close>. \<open>isdigit\<close> is the one of the C locale. \<open>rfind\<close> gives the last
  position of a character, \<open>None\<close> standing for \<open>npos\<close>.
\<close>

definition char_at :: "string \<Rightarrow> nat \<Rightarrow> char" where
  "char_at s i = (if i < length s then s ! i else CHR 0x00)"

definition isdigit :: "char \<Rightarrow> bool" where
  "isdigit c = (c \<in> set ''0123456789'')"

fun rfind :: "string \<Rightarrow> char \<Rightarrow> nat option" where
  "rfind [] c = None"
| "rfind (x # xs) c =
     (case rfind xs c of
        Some k \<Rightarrow> Some (Suc k)
      | None \<Rightarrow> (if x = c then Some 0 else None))"

subsection \<open>Records and flag tables\<close>

text \<open>
  The field \<open>args\<close> of \<open>CompileCommandsEntry\<close> is \<open>args_raw\<close> here, \<open>args\<close> being
  the field of \<open>Entry\<close>.
\<close>

record CompileCommandsEntry =
  directory :: string
  "file" :: string
  command :: string
  args_raw :: "string list"

record ProjectConfig =
  quote_dirs :: "string set"
  angle_dirs :: "string set"
  extra_flags :: "string list"
  project_dir :: string
  resource_dir :: string

definition kBlacklistMulti :: "string list" where
  "kBlacklistMulti =
     [''-MF'', ''-MT'', ''-MQ'', ''-o'', ''--serialize-diagnostics'', ''-Xclang'']"

definition kBlacklist :: "string list" where
  "kBlacklist = [''-c'', ''-MP'', ''-MD'', ''-MMD'', ''--fcolor-diagnostics'']"

definition kPathArgs :: "string list" where
  "kPathArgs =
     [''-I'', ''-iquote'', ''-isystem'', ''--sysroot='',
      ''-isysroot'', ''-gcc-toolchain'', ''-include-pch'', ''-iframework'',
      ''-F'', ''-imacros'', ''-include'']"

definition kNormalizePathArgs :: "string list" where
  "kNormalizePathArgs = [''--sysroot='']"

definition kQuoteIncludeArgs :: "string list" where
  "kQuoteIncludeArgs = [''-iquote'']"

definition kAngleIncludeArgs :: "string list" where
  "kAngleIncludeArgs = [''-I'', ''-isystem'']"

definition ShouldAddToQuoteIncludes :: "string \<Rightarrow> bool" where
  "ShouldAddToQuoteIncludes arg = StartsWithAny arg kQuoteIncludeArgs"

definition ShouldAddToAngleIncludes :: "string \<Rightarrow> bool" where
  "ShouldAddToAngleIncludes arg = StartsWithAny arg kAngleIncludeArgs"

definition SourceFileType :: "string \<Rightarrow> string option" where
  "SourceFileType path =
     (if EndsWith path ''.c'' then Some ''c''
      else if EndsWith path ''.cpp'' \<or> EndsWith path ''.cc'' then Some ''c++''
      else if EndsWith path ''.mm'' then Some ''objective-c++''
      else if EndsWith path ''.m'' then Some ''objective-c''
      else None)"

subsection \<open>The classifier\<close>

text \<open>
  A failed \<open>assert\<close> aborts the process; it is the error value of the model.
\<close>

datatype error = AssertionFailed

text \<open>
  The lambda \<open>cleanup_maybe_relative_path\<close>, which captures \<open>entry\<close>.
\<close>

definition cleanup_maybe_relative_path ::
  "Platform \<Rightarrow> CompileCommandsEntry \<Rightarrow> string \<Rightarrow> error + string" where
  "cleanup_maybe_relative_path pf entry path =
     (if path = [] then Inl AssertionFailed
      else if char_at path 0 = CHR ''/'' \<or> directory entry = [] then
        Inr (NormalizePathWithTestOptOut pf path)
      else Inr (NormalizePathWithTestOptOut pf (directory entry @ ''/'' @ path)))"

text \<open>
  The \<open>while\<close> loop that skips the tokens in front of the compiler's flags; it returns
  the final \<open>i\<close>.
\<close>

function compiler_loop :: "Platform \<Rightarrow> string \<Rightarrow> string list \<Rightarrow> nat \<Rightarrow> nat" where
  "compiler_loop pf fname as i =
     (if i < length as \<and> char_at (as ! i) 0 \<noteq> CHR ''-'' \<and>
         NormalizePathWithTestOptOut pf (as ! i) \<noteq> fname \<and>
         (case rfind (as ! i) CHR ''.'' of
            None \<Rightarrow> True
          | Some dot \<Rightarrow> dot + 4 < length (as ! i) \<or> isdigit (char_at (as ! i) (dot + 1)))
      then compiler_loop pf fname as (i + 1)
      else i)"
  by pat_completeness auto
termination
  by (relation "measure (\<lambda>(pf, fname, as, i). length as - i)") auto

text \<open>
  The three flags the argument loop carries from one token to the next.
\<close>

record FlagState =
  next_flag_is_path :: bool
  add_next_flag_to_quote_dirs :: bool
  add_next_flag_to_angle_dirs :: bool

definition FlagState_init :: FlagState where
  "FlagState_init =
     \<lparr>next_flag_is_path = False, add_next_flag_to_quote_dirs = False,
      add_next_flag_to_angle_dirs = False\<rparr>"

text \<open>
  The inner loop \<open>for (const std::string& flag_type : kPathArgs)\<close>, run on a token
  that is not the value of a split path flag. It returns the token as it is pushed,
  the flags and the accumulator.
\<close>

fun path_args_loop ::
  "Platform \<Rightarrow> CompileCommandsEntry \<Rightarrow> string list \<Rightarrow> string \<Rightarrow> FlagState \<Rightarrow> ProjectConfig
     \<Rightarrow> error + (string \<times> FlagState \<times> ProjectConfig)" where
  "path_args_loop pf entry [] arg st config = Inr (arg, st, config)"
| "path_args_loop pf entry (flag_type # flag_types) arg st config =
     (if arg = flag_type then
        Inr (arg,
             st\<lparr>next_flag_is_path := True,
                add_next_flag_to_quote_dirs := ShouldAddToQuoteIncludes arg,
                add_next_flag_to_angle_dirs := ShouldAddToAngleIncludes arg\<rparr>,
             config)
      else if StartsWith arg flag_type then
        (let path = drop (length flag_type) arg in
         if path = [] then Inl AssertionFailed
         else
           (case cleanup_maybe_relative_path pf entry path of
              Inl e \<Rightarrow> Inl e
            | Inr path' \<Rightarrow>
                (let arg' = (if StartsWithAny arg kNormalizePathArgs then flag_type @ path'
                             else arg);
                     config1 = (if ShouldAddToQuoteIncludes flag_type
                                then config\<lparr>quote_dirs := insert path' (quote_dirs config)\<rparr>
                                else config);
                     config2 = (if ShouldAddToAngleIncludes flag_type
                                then config1\<lparr>angle_dirs := insert path' (angle_dirs config1)\<rparr>
                                else config1)
                 in Inr (arg', st, config2))))
      else path_args_loop pf entry flag_types arg st config)"

text \<open>
  The loop \<open>for (; i < entry.args.size(); ++i)\<close> over the tokens from position \<open>i\<close>
  on. A multi-token blacklisted flag does \<open>++i; continue\<close>, which leaves out the next
  token as well.
\<close>

fun args_loop ::
  "Platform \<Rightarrow> CompileCommandsEntry \<Rightarrow> string list \<Rightarrow> FlagState \<Rightarrow> ProjectConfig
     \<Rightarrow> string list \<Rightarrow> error + (ProjectConfig \<times> string list)" where
  "args_loop pf entry [] st config result_args = Inr (config, result_args)"
| "args_loop pf entry (arg # rest) st config result_args =
     (if \<not> next_flag_is_path st \<and> StartsWithAny arg kBlacklistMulti then
        args_loop pf entry (drop 1 rest) st config result_args
      else if \<not> next_flag_is_path st \<and> StartsWithAny arg kBlacklist then
        args_loop pf entry rest st config result_args
      else if next_flag_is_path st then
        (case cleanup_maybe_relative_path pf entry arg of
           Inl e \<Rightarrow> Inl e
         | Inr normalized_arg \<Rightarrow>
             (let config1 = (if add_next_flag_to_quote_dirs st
                             then config\<lparr>quote_dirs := insert normalized_arg (quote_dirs config)\<rparr>
                             else config);
                  config2 = (if add_next_flag_to_angle_dirs st
                             then config1\<lparr>angle_dirs := insert normalized_arg (angle_dirs config1)\<rparr>
                             else config1)
              in args_loop pf entry rest
                   (st\<lparr>next_flag_is_path := False, add_next_flag_to_quote_dirs := False,
                       add_next_flag_to_angle_dirs := False\<rparr>)
                   config2 (result_args @ [arg])))
      else
        (case path_args_loop pf entry kPathArgs arg st config of
           Inl e \<Rightarrow> Inl e
         | Inr (arg', st', config') \<Rightarrow>
             args_loop pf entry rest st' config' (result_args @ [arg'])))"

text \<open>
  The tokens pushed before the argument loop: the compiler, the working directory and
  the language of the source file.
\<close>

definition compiler_args :: "CompileCommandsEntry \<Rightarrow> nat \<Rightarrow> string list" where
  "compiler_args entry i =
     (if i > 0 then [args_raw entry ! (i - 1)] else [''clang++''])"

definition working_directory_args :: "CompileCommandsEntry \<Rightarrow> string list" where
  "working_directory_args entry =
     (if \<not> AnyStartsWith (args_raw entry) ''-working-directory''
      then [''-working-directory'', directory entry] else [])"

definition source_type_args :: "CompileCommandsEntry \<Rightarrow> string list" where
  "source_type_args entry =
     (case SourceFileType (file entry) of
        None \<Rightarrow> []
      | Some source_file_type \<Rightarrow>
          (if \<not> AnyStartsWith (args_raw entry) ''-x'' then [''-x'' @ source_file_type] else [])
          @ (if \<not> AnyStartsWith (args_raw entry) ''-std='' then
               (if source_file_type = ''c'' then [''-std=gnu11'']
                else if source_file_type = ''c++'' then [''-std=c++14'']
                else [])
             else []))"

text \<open>
  The tokens pushed after the argument loop: the extra flags, then each of the three
  fixed flags unless a token of the result so far starts with it.
\<close>

definition trailing_args :: "ProjectConfig \<Rightarrow> string list \<Rightarrow> string list" where
  "trailing_args config result_args =
     (let r1 = result_args @ extra_flags config;
          r2 = (if \<not> AnyStartsWith r1 ''-resource-dir''
                then r1 @ [''-resource-dir='' @ resource_dir config] else r1);
          r3 = (if \<not> AnyStartsWith r2 ''-Wno-unknown-warning-option''
                then r2 @ [''-Wno-unknown-warning-option''] else r2)
      in (if \<not> AnyStartsWith r3 ''-fparse-all-comments''
          then r3 @ [''-fparse-all-comments''] else r3))"

text \<open>
  \<open>GetCompilationEntryFromCompileCommandEntry\<close>. The accumulator behind the pointer
  \<open>config\<close> is returned with the entry.
\<close>

definition GetCompilationEntryFromCompileCommandEntry ::
  "Platform \<Rightarrow> ProjectConfig \<Rightarrow> CompileCommandsEntry \<Rightarrow> error + (Entry \<times> ProjectConfig)" where
  "GetCompilationEntryFromCompileCommandEntry pf config entry =
     (let fname = NormalizePathWithTestOptOut pf (file entry);
          i = compiler_loop pf fname (args_raw entry) 0;
          result_args = compiler_args entry i @ working_directory_args entry
                          @ source_type_args entry
      in case args_loop pf entry (drop i (args_raw entry)) FlagState_init config result_args of
           Inl e \<Rightarrow> Inl e
         | Inr (config', result_args') \<Rightarrow>
             Inr (Entry_default\<lparr>filename := fname,
                                args := trailing_args config' result_args'\<rparr>,
                  config'))"

section \<open>Notions the statements use\<close>

text \<open>
  The score as the specification words it: 100 for each character of the longest
  common prefix, minus 100 for each \<open>'/'\<close> of either string from the stop index on,
  plus 1 for each character of the longest common ending.
\<close>

definition slashes :: "string \<Rightarrow> nat" where
  "slashes s = length (filter (\<lambda>c. c = CHR ''/'') s)"

definition spec_score :: "string \<Rightarrow> string \<Rightarrow> int" where
  "spec_score a b =
     (let i = length (longest_common_prefix a b) in
      100 * int i - 100 * int (slashes (drop i a)) - 100 * int (slashes (drop i b))
        + int (length (longest_common_prefix (rev a) (rev b))))"

text \<open>
  A run of tokens that the argument loop, entered outside a path value, consumes to
  its end and leaves outside a path value: every multi-token blacklisted flag and
  every split path flag of the run has its following token inside the run.
\<close>

fun consumed_exactly :: "string list \<Rightarrow> bool" where
  "consumed_exactly [] = True"
| "consumed_exactly (arg # rest) =
     (if StartsWithAny arg kBlacklistMulti then rest \<noteq> [] \<and> consumed_exactly (drop 1 rest)
      else if StartsWithAny arg kBlacklist then consumed_exactly rest
      else if arg \<in> set kPathArgs then rest \<noteq> [] \<and> consumed_exactly (drop 1 rest)
      else consumed_exactly rest)"

text \<open>
  The score of an entry against the queried name, read as a signed integer, and the
  invariant of the inference loop after the entries \<open>pre\<close>: \<open>best_entry\<close> is the
  first entry of the highest score so far and \<open>best_score\<close> is its score.
\<close>

definition score_of :: "string \<Rightarrow> Entry \<Rightarrow> int" where
  "score_of fname e = sint (ComputeGuessScore fname (filename e))"

definition loop_inv :: "string \<Rightarrow> Entry list \<Rightarrow> nat option \<Rightarrow> cint \<Rightarrow> bool" where
  "loop_inv fname pre be bs =
     (case be of
        None \<Rightarrow> bs = INT_MIN \<and> (\<forall>j<length pre. score_of fname (pre ! j) = sint INT_MIN)
      | Some b \<Rightarrow> b < length pre \<and> bs = ComputeGuessScore fname (filename (pre ! b)) \<and>
          (\<forall>j<length pre. score_of fname (pre ! j) \<le> score_of fname (pre ! b)) \<and>
          (\<forall>j<b. score_of fname (pre ! j) < score_of fname (pre ! b)))"

text \<open>
  Entries of the examples: the two of the directory-proximity example, and two whose
  names score alike against \<open>/p/new.cc\<close>.
\<close>

definition bar_cc :: Entry where
  "bar_cc = \<lparr>filename = ''/a/b/c/d/bar.cc'', args = [''x1''], is_inferred = False\<rparr>"
definition baz_cc :: Entry where
  "baz_cc = \<lparr>filename = ''/a/b/c/baz.cc'', args = [''x2''], is_inferred = False\<rparr>"

definition tie_a :: Entry where
  "tie_a = \<lparr>filename = ''/p/a.cc'', args = [''first''], is_inferred = False\<rparr>"
definition tie_b :: Entry where
  "tie_b = \<lparr>filename = ''/p/b.cc'', args = [''second''], is_inferred = False\<rparr>"

text \<open>
  The condition of the \<open>while\<close> loop on one token: it is skipped as a part of the
  command in front of the flags.
\<close>

definition is_command_token :: "Platform \<Rightarrow> string \<Rightarrow> string \<Rightarrow> bool" where
  "is_command_token pf fname arg =
     (char_at arg 0 \<noteq> CHR ''-'' \<and> NormalizePathWithTestOptOut pf arg \<noteq> fname \<and>
      (case rfind arg CHR ''.'' of
         None \<Rightarrow> True
       | Some dot \<Rightarrow> dot + 4 < length arg \<or> isdigit (char_at arg (dot + 1))))"

text \<open>
  The precondition on the raw arguments: no token that follows a token equal to a
  path flag is empty.
\<close>

fun path_values_nonempty :: "string list \<Rightarrow> bool" where
  "path_values_nonempty (a # b # xs) =
     ((a \<in> set kPathArgs \<longrightarrow> b \<noteq> []) \<and> path_values_nonempty (b # xs))"
| "path_values_nonempty xs = True"

text \<open>
  The setting of the tests of \<open>project.cc\<close>: normalization switched off, so that a
  normalized path is the path behind \<open>&\<close>, and the accumulator of \<open>CheckFlags\<close>.
\<close>

definition test_platform :: Platform where
  "test_platform = \<lparr>g_disable_normalize_path_for_test = True, NormalizePath = (\<lambda>path. path)\<rparr>"

definition test_config :: ProjectConfig where
  "test_config =
     \<lparr>quote_dirs = {}, angle_dirs = {}, extra_flags = [],
      project_dir = ''/w/c/s/'', resource_dir = ''/w/resource_dir/''\<rparr>"

definition test_entry :: "string list \<Rightarrow> CompileCommandsEntry" where
  "test_entry raw = \<lparr>directory = ''/dir/'', file = ''file.cc'', command = [], args_raw = raw\<rparr>"

text \<open>
  A token that the argument loop copies as it is, inside and outside a path value: it
  is not empty, no blacklisted flag and no path flag is a prefix of it.
\<close>

definition plain_token :: "string \<Rightarrow> bool" where
  "plain_token t =
     (t \<noteq> [] \<and> \<not> StartsWithAny t kBlacklistMulti \<and> \<not> StartsWithAny t kBlacklist \<and>
      \<not> StartsWithAny t kPathArgs)"

text \<open>
  A normalization that yields absolute paths and leaves its own results alone.
\<close>

definition absolute_idempotent :: "Platform \<Rightarrow> bool" where
  "absolute_idempotent pf =
     (\<forall>p. char_at (NormalizePathWithTestOptOut pf p) 0 = CHR ''/'' \<and>
          NormalizePathWithTestOptOut pf (NormalizePathWithTestOptOut pf p) =
            NormalizePathWithTestOptOut pf p)"

text \<open>
  A platform of that kind, for the examples: normalization puts \<open>/\<close> in front of a
  path that does not start with it.
\<close>

definition rooted_platform :: Platform where
  "rooted_platform =
     \<lparr>g_disable_normalize_path_for_test = False,
      NormalizePath = (\<lambda>path. if char_at path 0 = CHR ''/'' then path else CHR ''/'' # path)\<rparr>"

section \<open>The score loops compute the specified score\<close>

declare prefix_loop.simps [simp del] directory_loop.simps [simp del] postfix_loop.simps [simp del]

lemma lcp_drop_Nil:
  "\<not> (i < length a \<and> i < length b) \<Longrightarrow> longest_common_prefix (drop i a) (drop i b) = []"
proof -
  assume "\<not> (i < length a \<and> i < length b)"
  then have "drop i a = [] \<or> drop i b = []" by auto
  then show ?thesis by auto
qed

lemma lcp_drop_Cons:
  assumes "i < length a" "i < length b"
  shows "longest_common_prefix (drop i a) (drop i b) =
           (if a ! i = b ! i then a ! i # longest_common_prefix (drop (Suc i) a) (drop (Suc i) b)
            else [])"
proof -
  have "drop i a = a ! i # drop (Suc i) a" "drop i b = b ! i # drop (Suc i) b"
    using assms by (simp_all add: Cons_nth_drop_Suc)
  then show ?thesis by simp
qed

lemma prefix_loop_eq:
  "prefix_loop a b i score =
     (i + length (longest_common_prefix (drop i a) (drop i b)),
      score + 100 * of_nat (length (longest_common_prefix (drop i a) (drop i b))))"
proof (induction a b i score rule: prefix_loop.induct)
  case (1 a b i score)
  show ?case
  proof (cases "i < length a \<and> i < length b")
    case True
    show ?thesis
    proof (cases "a ! i = b ! i")
      case eq: True
      have "prefix_loop a b i score = prefix_loop a b (i + 1) (score + kMatchPrefixWeight)"
        using True eq by (subst prefix_loop.simps) simp
      also have "\<dots> =
        (i + 1 + length (longest_common_prefix (drop (i + 1) a) (drop (i + 1) b)),
         score + kMatchPrefixWeight
           + 100 * of_nat (length (longest_common_prefix (drop (i + 1) a) (drop (i + 1) b))))"
        using "1.IH" True eq by simp
      finally show ?thesis
        using True eq by (simp add: lcp_drop_Cons kMatchPrefixWeight_def algebra_simps)
    next
      case False
      have "prefix_loop a b i score = (i, score)"
        using True False by (subst prefix_loop.simps) simp
      then show ?thesis using True False by (simp add: lcp_drop_Cons)
    qed
  next
    case False
    have "prefix_loop a b i score = (i, score)"
      by (subst prefix_loop.simps) (simp only: False if_False)
    then show ?thesis using lcp_drop_Nil [OF False] by simp
  qed
qed

lemma directory_loop_eq:
  "directory_loop a j score = score - 100 * of_nat (slashes (drop j a))"
proof (induction a j score rule: directory_loop.induct)
  case (1 a j score)
  show ?case
  proof (cases "j < length a")
    case True
    then have da: "drop j a = a ! j # drop (Suc j) a"
      by (simp add: Cons_nth_drop_Suc)
    have "directory_loop a j score =
        directory_loop a (j + 1)
          (if a ! j = CHR ''/'' then score - kMismatchDirectoryWeight else score)"
      using True by (subst directory_loop.simps) simp
    also have "\<dots> = (if a ! j = CHR ''/'' then score - kMismatchDirectoryWeight else score)
         - 100 * of_nat (slashes (drop (j + 1) a))"
      using "1.IH" True by simp
    finally have e: "directory_loop a j score =
        (if a ! j = CHR ''/'' then score - kMismatchDirectoryWeight else score)
          - 100 * of_nat (slashes (drop (Suc j) a))"
      by simp
    show ?thesis
      unfolding e by (simp add: da slashes_def kMismatchDirectoryWeight_def algebra_simps)
  next
    case False
    have "directory_loop a j score = score"
      using False by (subst directory_loop.simps) simp
    then show ?thesis using False by (simp add: slashes_def)
  qed
qed

lemma postfix_loop_eq:
  "postfix_loop a b (Suc k) score =
     score + of_nat (length (longest_common_prefix (drop k (rev a)) (drop k (rev b))))"
proof (induction "length a - k" arbitrary: k score)
  case 0
  then have "\<not> (k < length (rev a) \<and> k < length (rev b))" by simp
  then have "longest_common_prefix (drop k (rev a)) (drop k (rev b)) = []"
    by (rule lcp_drop_Nil)
  moreover have "\<not> Suc k \<le> length a" using 0 by simp
  then have "postfix_loop a b (Suc k) score = score"
    by (subst postfix_loop.simps) simp
  ultimately show ?case by simp
next
  case (Suc n)
  show ?case
  proof (cases "Suc k \<le> length a \<and> Suc k \<le> length b")
    case True
    then have lt: "k < length (rev a)" "k < length (rev b)" by auto
    have na: "rev a ! k = a ! (length a - Suc k)"
      using rev_nth [of k a] lt by simp
    have nb: "rev b ! k = b ! (length b - Suc k)"
      using rev_nth [of k b] lt by simp
    note lcp = lcp_drop_Cons [OF lt, unfolded na nb]
    show ?thesis
    proof (cases "a ! (length a - Suc k) = b ! (length b - Suc k)")
      case eq: True
      have "postfix_loop a b (Suc k) score =
          postfix_loop a b (Suc (Suc k)) (score + kMatchPostfixWeight)"
        using True eq by (subst postfix_loop.simps) simp
      moreover have "n = length a - Suc k" using Suc.hyps(2) by simp
      then have "postfix_loop a b (Suc (Suc k)) (score + kMatchPostfixWeight) =
         score + kMatchPostfixWeight
           + of_nat (length (longest_common_prefix (drop (Suc k) (rev a)) (drop (Suc k) (rev b))))"
        by (rule Suc.hyps(1))
      ultimately show ?thesis using eq
        by (simp add: lcp kMatchPostfixWeight_def algebra_simps)
    next
      case False
      have "postfix_loop a b (Suc k) score = score"
        using True False by (subst postfix_loop.simps) simp
      then show ?thesis using False by (simp add: lcp)
    qed
  next
    case False
    then have "\<not> (k < length (rev a) \<and> k < length (rev b))" by auto
    then have "longest_common_prefix (drop k (rev a)) (drop k (rev b)) = []"
      by (rule lcp_drop_Nil)
    moreover have "postfix_loop a b (Suc k) score = score"
      by (subst postfix_loop.simps) (simp only: False if_False)
    ultimately show ?thesis by simp
  qed
qed

lemma ComputeGuessScore_word: "ComputeGuessScore a b = word_of_int (spec_score a b)"
  using postfix_loop_eq [of a b 0]
  by (simp add: ComputeGuessScore_def prefix_loop_eq directory_loop_eq spec_score_def Let_def)

lemma slashes_le: "slashes s \<le> length s"
  by (simp add: slashes_def)

lemma lcp_length_le: "length (longest_common_prefix a b) \<le> min (length a) (length b)"
  by (induction a b rule: longest_common_prefix.induct) auto

lemma spec_score_arith:
  fixes i sa sb t la lb :: int
  assumes "0 \<le> i" "0 \<le> sa" "0 \<le> sb" "0 \<le> t" "sa + i \<le> la" "sb + i \<le> lb" "t \<le> lb"
  shows "- (100 * (la + lb)) \<le> 100 * i - 100 * sa - 100 * sb + t"
    and "100 * i - 100 * sa - 100 * sb + t \<le> 100 * (la + lb)"
  using assms by (simp_all add: algebra_simps)

lemma spec_score_bounds:
  "- (100 * int (length a + length b)) \<le> spec_score a b \<and>
   spec_score a b \<le> 100 * int (length a + length b)"
proof -
  let ?i = "length (longest_common_prefix a b)"
  have 1: "?i \<le> length a" "?i \<le> length b" using lcp_length_le [of a b] by auto
  have 2: "slashes (drop ?i a) + ?i \<le> length a" "slashes (drop ?i b) + ?i \<le> length b"
    using slashes_le [of "drop ?i a"] slashes_le [of "drop ?i b"] 1 by auto
  have 3: "length (longest_common_prefix (rev a) (rev b)) \<le> length a"
     "length (longest_common_prefix (rev a) (rev b)) \<le> length b"
    using lcp_length_le [of "rev a" "rev b"] by auto
  define i sa sb t la lb where "i = int ?i" and "sa = int (slashes (drop ?i a))"
    and "sb = int (slashes (drop ?i b))"
    and "t = int (length (longest_common_prefix (rev a) (rev b)))"
    and "la = int (length a)" and "lb = int (length b)"
  have f: "0 \<le> i" "0 \<le> sa" "0 \<le> sb" "0 \<le> t" "sa + i \<le> la" "sb + i \<le> lb" "t \<le> lb"
    using 1 2 3 unfolding i_def sa_def sb_def t_def la_def lb_def by linarith+
  have "- (100 * (la + lb)) \<le> 100 * i - 100 * sa - 100 * sb + t"
    using f by (rule spec_score_arith)
  moreover have "100 * i - 100 * sa - 100 * sb + t \<le> 100 * (la + lb)"
    using f by (rule spec_score_arith)
  ultimately show ?thesis
    unfolding spec_score_def Let_def i_def sa_def sb_def t_def la_def lb_def of_nat_add by simp
qed

lemma ComputeGuessScore_sint:
  assumes "100 * (length a + length b) < 2 ^ 31"
  shows "sint (ComputeGuessScore a b) = spec_score a b"
proof -
  have "100 * int (length a + length b) < 2 ^ 31"
    using assms by (metis of_nat_less_iff of_nat_mult of_nat_numeral of_nat_power)
  then have "- (2 ^ 31) \<le> spec_score a b" "spec_score a b < 2 ^ 31"
    using spec_score_bounds [of a b] by linarith+
  then show ?thesis
    by (simp add: ComputeGuessScore_word sint_sbintrunc' signed_take_bit_int_eq_self)
qed

section \<open>The inference loop keeps the first entry of the highest score\<close>

lemma ComputeGuessScore_gt_INT_MIN:
  assumes "100 * (length a + length b) < 2 ^ 31"
  shows "INT_MIN <s ComputeGuessScore a b"
proof -
  have "100 * int (length a + length b) < 2 ^ 31"
    using assms by (metis of_nat_less_iff of_nat_mult of_nat_numeral of_nat_power)
  then have "- (2 ^ 31) < spec_score a b"
    using spec_score_bounds [of a b] by linarith
  then show ?thesis
    using ComputeGuessScore_sint [OF assms] by (simp add: word_sless_alt INT_MIN_def)
qed

lemma sint_ge_INT_MIN: "sint INT_MIN \<le> sint (w :: cint)"
  using sint_range_size [of w] by (simp add: INT_MIN_def word_size)

lemma best_entry_loop_inv:
  "loop_inv fname pre be bs \<Longrightarrow>
   \<exists>bs'. loop_inv fname (pre @ es) (best_entry_loop fname es (length pre) be bs) bs'"
proof (induction es arbitrary: pre be bs)
  case Nil
  then show ?case by auto
next
  case (Cons e es)
  let ?s = "ComputeGuessScore fname (filename e)"
  have step: "loop_inv fname (pre @ [e])
      (if bs <s ?s then Some (length pre) else be) (if bs <s ?s then ?s else bs)"
  proof (cases "bs <s ?s")
    case True
    have bound: "\<forall>j<length pre. score_of fname (pre ! j) \<le> sint bs"
      using Cons.prems sint_ge_INT_MIN [of bs]
      by (auto simp: loop_inv_def  split: option.splits simp: score_of_def)
    have "\<forall>j<length pre. score_of fname (pre ! j) < score_of fname e"
      using bound True by (fastforce simp: word_sless_alt score_of_def)
    then show ?thesis using True
      by (auto simp: loop_inv_def nth_append score_of_def less_Suc_eq)
  next
    case False
    then have le: "sint ?s \<le> sint bs" by (simp add: word_sless_alt)
    show ?thesis
    proof (cases be)
      case None
      then have "bs = INT_MIN" using Cons.prems by (simp add: loop_inv_def)
      then have "sint ?s = sint INT_MIN" using le sint_ge_INT_MIN [of ?s] by simp
      then show ?thesis using None Cons.prems False
        by (auto simp: loop_inv_def nth_append score_of_def less_Suc_eq)
    next
      case (Some b)
      then show ?thesis using Cons.prems False le
        by (auto simp: loop_inv_def nth_append score_of_def less_Suc_eq)
    qed
  qed
  have "best_entry_loop fname (e # es) (length pre) be bs =
        best_entry_loop fname es (length (pre @ [e]))
          (if bs <s ?s then Some (length pre) else be) (if bs <s ?s then ?s else bs)"
    by (simp add: Let_def)
  then show ?case using Cons.IH [OF step] by simp
qed

lemma best_entry_loop_result:
  "\<exists>bs'. loop_inv fname es (best_entry_loop fname es 0 None INT_MIN) bs'"
  using best_entry_loop_inv [of fname "[]" None INT_MIN es] by (simp add: loop_inv_def)

lemma best_entry_loop_winner:
  assumes "es \<noteq> []"
    and "\<forall>e\<in>set es. 100 * (length fname + length (filename e)) < 2 ^ 31"
  shows "\<exists>k<length es. best_entry_loop fname es 0 None INT_MIN = Some k \<and>
           (\<forall>j<length es. score_of fname (es ! j) \<le> score_of fname (es ! k)) \<and>
           (\<forall>j<k. score_of fname (es ! j) < score_of fname (es ! k))"
proof -
  obtain bs' where inv: "loop_inv fname es (best_entry_loop fname es 0 None INT_MIN) bs'"
    using best_entry_loop_result by blast
  have "best_entry_loop fname es 0 None INT_MIN \<noteq> None"
  proof
    assume n: "best_entry_loop fname es 0 None INT_MIN = None"
    have 0: "0 < length es" using assms(1) by simp
    then have "score_of fname (es ! 0) = sint INT_MIN"
      using inv n by (simp add: loop_inv_def)
    moreover have "es ! 0 \<in> set es" using 0 by simp
    then have "INT_MIN <s ComputeGuessScore fname (filename (es ! 0))"
      using assms(2) ComputeGuessScore_gt_INT_MIN by blast
    ultimately show False by (simp add: word_sless_alt score_of_def)
  qed
  then obtain k where k: "best_entry_loop fname es 0 None INT_MIN = Some k" by blast
  then show ?thesis using inv by (auto simp: loop_inv_def)
qed

lemma miss_result:
  assumes "absolute_path_to_entry_index p fname = None"
  shows "FindCompilationEntryForFile p fname =
     Inr \<lparr>filename = fname,
          args = (case best_entry_loop fname (entries p) 0 None INT_MIN of
                    Some k \<Rightarrow> args (entries p ! k) | None \<Rightarrow> []),
          is_inferred = True\<rparr>"
  using assms
  by (simp add: FindCompilationEntryForFile_def Entry_default_def Let_def split: option.splits)

lemma proximity_scores:
  "ComputeGuessScore ''/a/b/c/d/new.cc'' ''/a/b/c/d/bar.cc'' = 903"
  "ComputeGuessScore ''/a/b/c/d/new.cc'' ''/a/b/c/baz.cc'' = 603"
  "ComputeGuessScore ''/a/b/c/new.cc'' ''/a/b/c/d/bar.cc'' = 603"
  "ComputeGuessScore ''/a/b/c/new.cc'' ''/a/b/c/baz.cc'' = 703"
  "ComputeGuessScore ''/a/b/c/new/new.cc'' ''/a/b/c/d/bar.cc'' = 503"
  "ComputeGuessScore ''/a/b/c/new/new.cc'' ''/a/b/c/baz.cc'' = 603"
  by (simp_all add: ComputeGuessScore_word spec_score_def slashes_def)

lemma tie_scores:
  "ComputeGuessScore ''/p/new.cc'' ''/p/a.cc'' = 303"
  "ComputeGuessScore ''/p/new.cc'' ''/p/b.cc'' = 303"
  by (simp_all add: ComputeGuessScore_word spec_score_def slashes_def)

section \<open>Claims on the inference engine\<close>

text \<open>
  C1. For every pair of strings the computed score is the specified sum as a 32-bit
  integer: 100 times the length of the longest common prefix, minus 100 for every
  \<open>'/'\<close> of \<open>a\<close> and for every \<open>'/'\<close> of \<open>b\<close> at or after the stop index, plus 1 for
  every character of the longest common ending. Read as a signed integer it is that
  sum itself as long as the 32-bit score cannot overflow, which
  \<open>100 * (|a| + |b|) < 2^31\<close> ensures. No floor is applied: it may be negative.
\<close>

theorem ComputeGuessScore_spec:
  "ComputeGuessScore a b = word_of_int (spec_score a b) \<and>
   (100 * (length a + length b) < 2 ^ 31 \<longrightarrow>
      sint (ComputeGuessScore a b) = spec_score a b)"
  using ComputeGuessScore_word [of a b] ComputeGuessScore_sint [of a b] by blast

text \<open>
  The score of \<open>/a/b/c/new/new.cc\<close> against \<open>/a/b/c/d/bar.cc\<close> is \<open>700 - 100 - 100 + 3\<close>,
  and the score of \<open>b/c/d.cc\<close> against \<open>x\<close> is \<open>-200\<close>.
\<close>

theorem ComputeGuessScore_spec_witness:
  "100 * (length ''/a/b/c/new/new.cc'' + length ''/a/b/c/d/bar.cc'') < (2::nat) ^ 31 \<and>
   sint (ComputeGuessScore ''/a/b/c/new/new.cc'' ''/a/b/c/d/bar.cc'') = 503 \<and>
   100 * (length ''b/c/d.cc'' + length ''x'') < (2::nat) ^ 31 \<and>
   sint (ComputeGuessScore ''b/c/d.cc'' ''x'') = - 200"
  using ComputeGuessScore_spec [of "''/a/b/c/new/new.cc''" "''/a/b/c/d/bar.cc''"]
    ComputeGuessScore_spec [of "''b/c/d.cc''" "''x''"]
  by (simp add: spec_score_def slashes_def)

text \<open>
  C2. With the index built from \<open>/a/b/c/d/bar.cc\<close> (args \<open>x1\<close>) and \<open>/a/b/c/baz.cc\<close>
  (args \<open>x2\<close>), the absent file \<open>/a/b/c/d/new.cc\<close> gets the args \<open>x1\<close>, and both
  \<open>/a/b/c/new.cc\<close> and \<open>/a/b/c/new/new.cc\<close> get the args \<open>x2\<close>. This holds with the
  exact-match table as \<open>Project::Load\<close> fills it, and with the empty table of the test
  in \<open>project.cc\<close>, which pushes the two entries without loading.
\<close>

theorem inference_directory_proximity:
  "FindCompilationEntryForFile (Project_of_entries [bar_cc, baz_cc]) ''/a/b/c/d/new.cc'' =
     Inr \<lparr>filename = ''/a/b/c/d/new.cc'', args = [''x1''], is_inferred = True\<rparr> \<and>
   FindCompilationEntryForFile (Project_of_entries [bar_cc, baz_cc]) ''/a/b/c/new.cc'' =
     Inr \<lparr>filename = ''/a/b/c/new.cc'', args = [''x2''], is_inferred = True\<rparr> \<and>
   FindCompilationEntryForFile (Project_of_entries [bar_cc, baz_cc]) ''/a/b/c/new/new.cc'' =
     Inr \<lparr>filename = ''/a/b/c/new/new.cc'', args = [''x2''], is_inferred = True\<rparr> \<and>
   FindCompilationEntryForFile
     \<lparr>entries = [bar_cc, baz_cc], absolute_path_to_entry_index = Map.empty\<rparr>
     ''/a/b/c/d/new.cc'' =
     Inr \<lparr>filename = ''/a/b/c/d/new.cc'', args = [''x1''], is_inferred = True\<rparr> \<and>
   FindCompilationEntryForFile
     \<lparr>entries = [bar_cc, baz_cc], absolute_path_to_entry_index = Map.empty\<rparr>
     ''/a/b/c/new.cc'' =
     Inr \<lparr>filename = ''/a/b/c/new.cc'', args = [''x2''], is_inferred = True\<rparr> \<and>
   FindCompilationEntryForFile
     \<lparr>entries = [bar_cc, baz_cc], absolute_path_to_entry_index = Map.empty\<rparr>
     ''/a/b/c/new/new.cc'' =
     Inr \<lparr>filename = ''/a/b/c/new/new.cc'', args = [''x2''], is_inferred = True\<rparr>"
  by (simp add: FindCompilationEntryForFile_def Project_of_entries_def bar_cc_def baz_cc_def
      Entry_default_def proximity_scores INT_MIN_def word_sless_alt)

text \<open>
  C3. For a queried name that the exact-match table misses and a non-empty index whose
  names are short enough for the 32-bit score, the answer carries the args of an entry
  \<open>k\<close> of the highest score, and every entry before \<open>k\<close> scores strictly less: among
  the entries of the highest score the first one in index order wins.
\<close>

theorem inference_first_maximum:
  assumes "absolute_path_to_entry_index p fname = None"
    and "entries p \<noteq> []"
    and "\<forall>e\<in>set (entries p). 100 * (length fname + length (filename e)) < 2 ^ 31"
  shows "\<exists>k<length (entries p).
           FindCompilationEntryForFile p fname =
             Inr \<lparr>filename = fname, args = args (entries p ! k), is_inferred = True\<rparr> \<and>
           (\<forall>j<length (entries p).
              sint (ComputeGuessScore fname (filename (entries p ! j)))
                \<le> sint (ComputeGuessScore fname (filename (entries p ! k)))) \<and>
           (\<forall>j<k. sint (ComputeGuessScore fname (filename (entries p ! j)))
                < sint (ComputeGuessScore fname (filename (entries p ! k))))"
proof -
  obtain k where k: "k < length (entries p)"
      "best_entry_loop fname (entries p) 0 None INT_MIN = Some k"
      "\<forall>j<length (entries p). score_of fname (entries p ! j) \<le> score_of fname (entries p ! k)"
      "\<forall>j<k. score_of fname (entries p ! j) < score_of fname (entries p ! k)"
    using best_entry_loop_winner [OF assms(2,3)] by blast
  have "FindCompilationEntryForFile p fname =
      Inr \<lparr>filename = fname, args = args (entries p ! k), is_inferred = True\<rparr>"
    using miss_result [OF assms(1)] k(2) by simp
  then show ?thesis using k(1,3,4) unfolding score_of_def by blast
qed

text \<open>
  Two entries of the same score 303 against \<open>/p/new.cc\<close>: the first one is returned.
\<close>

theorem inference_first_maximum_witness:
  "absolute_path_to_entry_index (Project_of_entries [tie_a, tie_b]) ''/p/new.cc'' = None \<and>
   entries (Project_of_entries [tie_a, tie_b]) \<noteq> [] \<and>
   100 * (length ''/p/new.cc'' + length (filename tie_a)) < (2::nat) ^ 31 \<and>
   100 * (length ''/p/new.cc'' + length (filename tie_b)) < (2::nat) ^ 31 \<and>
   FindCompilationEntryForFile (Project_of_entries [tie_a, tie_b]) ''/p/new.cc'' =
     Inr \<lparr>filename = ''/p/new.cc'', args = [''first''], is_inferred = True\<rparr>"
proof -
  let ?p = "Project_of_entries [tie_a, tie_b]"
  have 1: "absolute_path_to_entry_index ?p ''/p/new.cc'' = None"
    by (simp add: Project_of_entries_def tie_a_def tie_b_def)
  have 2: "entries ?p \<noteq> []" by (simp add: Project_of_entries_def)
  have 3: "\<forall>e\<in>set (entries ?p). 100 * (length ''/p/new.cc'' + length (filename e)) < (2::nat) ^ 31"
    by (simp add: Project_of_entries_def tie_a_def tie_b_def)
  obtain k where k: "k < length (entries ?p)"
    "FindCompilationEntryForFile ?p ''/p/new.cc'' =
       Inr \<lparr>filename = ''/p/new.cc'', args = args (entries ?p ! k), is_inferred = True\<rparr>"
    "\<forall>j<k. sint (ComputeGuessScore ''/p/new.cc'' (filename (entries ?p ! j)))
        < sint (ComputeGuessScore ''/p/new.cc'' (filename (entries ?p ! k)))"
    using inference_first_maximum [OF 1 2 3] by blast
  have "k = 0"
  proof (rule ccontr)
    assume "k \<noteq> 0"
    then have "k = 1" using k(1) by (simp add: Project_of_entries_def)
    then have "sint (ComputeGuessScore ''/p/new.cc'' (filename (entries ?p ! 0)))
        < sint (ComputeGuessScore ''/p/new.cc'' (filename (entries ?p ! 1)))"
      using k(3) by blast
    then show False by (simp add: Project_of_entries_def tie_a_def tie_b_def tie_scores)
  qed
  then have "FindCompilationEntryForFile ?p ''/p/new.cc'' =
       Inr \<lparr>filename = ''/p/new.cc'', args = [''first''], is_inferred = True\<rparr>"
    using k(2) by (simp add: Project_of_entries_def tie_a_def)
  moreover have "100 * (length ''/p/new.cc'' + length (filename tie_a)) < (2::nat) ^ 31"
    "100 * (length ''/p/new.cc'' + length (filename tie_b)) < (2::nat) ^ 31"
    by (simp_all add: tie_a_def tie_b_def)
  ultimately show ?thesis using 1 2 by blast
qed

text \<open>
  C4. For a queried name that the exact-match table misses, the answer is marked
  inferred and carries the queried name; its args are those of the winning entry when
  the index is not empty (and its names are short enough for the 32-bit score). Over
  the empty index no entry wins, and the answer is still returned, with empty args.
\<close>

theorem inferred_entry:
  assumes "absolute_path_to_entry_index p fname = None"
  shows "\<exists>r. FindCompilationEntryForFile p fname = Inr r \<and> is_inferred r \<and> filename r = fname \<and>
           (entries p = [] \<longrightarrow> args r = []) \<and>
           ((entries p \<noteq> [] \<and>
               (\<forall>e\<in>set (entries p). 100 * (length fname + length (filename e)) < 2 ^ 31)) \<longrightarrow>
              (\<exists>k<length (entries p).
                 best_entry_loop fname (entries p) 0 None INT_MIN = Some k \<and>
                 args r = args (entries p ! k)))"
proof -
  let ?r = "\<lparr>filename = fname,
          args = (case best_entry_loop fname (entries p) 0 None INT_MIN of
                    Some k \<Rightarrow> args (entries p ! k) | None \<Rightarrow> []),
          is_inferred = True\<rparr>"
  have r: "FindCompilationEntryForFile p fname = Inr ?r"
    using miss_result [OF assms] .
  have e: "entries p = [] \<longrightarrow> args ?r = []" by simp
  have w: "(entries p \<noteq> [] \<and>
               (\<forall>e\<in>set (entries p). 100 * (length fname + length (filename e)) < 2 ^ 31)) \<longrightarrow>
              (\<exists>k<length (entries p).
                 best_entry_loop fname (entries p) 0 None INT_MIN = Some k \<and>
                 args ?r = args (entries p ! k))"
  proof
    assume a: "entries p \<noteq> [] \<and>
               (\<forall>e\<in>set (entries p). 100 * (length fname + length (filename e)) < 2 ^ 31)"
    then obtain k where "k < length (entries p)"
      "best_entry_loop fname (entries p) 0 None INT_MIN = Some k"
      using best_entry_loop_winner [of "entries p" fname] by blast
    then show "\<exists>k<length (entries p).
                 best_entry_loop fname (entries p) 0 None INT_MIN = Some k \<and>
                 args ?r = args (entries p ! k)" by auto
  qed
  show ?thesis using r e w by (intro exI [of _ ?r]) simp
qed

text \<open>
  The answer for \<open>/a/b/c/new.cc\<close> over the index of the proximity example.
\<close>

theorem inferred_entry_witness:
  "absolute_path_to_entry_index (Project_of_entries [bar_cc, baz_cc]) ''/a/b/c/new.cc'' = None \<and>
   (\<exists>r. FindCompilationEntryForFile (Project_of_entries [bar_cc, baz_cc]) ''/a/b/c/new.cc'' = Inr r \<and>
        is_inferred r \<and> filename r = ''/a/b/c/new.cc'' \<and> args r = [''x2''])"
proof -
  let ?p = "Project_of_entries [bar_cc, baz_cc]"
  have 1: "absolute_path_to_entry_index ?p ''/a/b/c/new.cc'' = None"
    by (simp add: Project_of_entries_def bar_cc_def baz_cc_def)
  have 2: "entries ?p \<noteq> [] \<and>
      (\<forall>e\<in>set (entries ?p). 100 * (length ''/a/b/c/new.cc'' + length (filename e)) < (2::nat) ^ 31)"
    by (simp add: Project_of_entries_def bar_cc_def baz_cc_def)
  have 3: "best_entry_loop ''/a/b/c/new.cc'' (entries ?p) 0 None INT_MIN = Some 1"
    by (simp add: Project_of_entries_def bar_cc_def baz_cc_def proximity_scores INT_MIN_def word_sless_alt)
  obtain r where r: "FindCompilationEntryForFile ?p ''/a/b/c/new.cc'' = Inr r" "is_inferred r"
     "filename r = ''/a/b/c/new.cc''"
     "\<exists>k<length (entries ?p).
         best_entry_loop ''/a/b/c/new.cc'' (entries ?p) 0 None INT_MIN = Some k \<and>
         args r = args (entries ?p ! k)"
    using inferred_entry [OF 1] 2 by blast
  then have "args r = [''x2'']" using 3
    by (auto simp: Project_of_entries_def baz_cc_def)
  then show ?thesis using 1 r by blast
qed

text \<open>
  Over the empty index the call does return an entry: it is marked inferred, carries
  the queried name and has no args.
\<close>

theorem empty_index_counterexample:
  "FindCompilationEntryForFile \<lparr>entries = [], absolute_path_to_entry_index = Map.empty\<rparr> ''/a/b/c/new.cc'' =
     Inr \<lparr>filename = ''/a/b/c/new.cc'', args = [], is_inferred = True\<rparr>"
  by (simp add: FindCompilationEntryForFile_def Entry_default_def)

section \<open>Facts on the classifier\<close>

subsection \<open>The scan for the compiler\<close>

declare compiler_loop.simps [simp del]

lemma compiler_loop_takeWhile:
  "i \<le> length as \<Longrightarrow>
   compiler_loop pf fname as i = i + length (takeWhile (is_command_token pf fname) (drop i as))"
proof (induction pf fname as i rule: compiler_loop.induct)
  case (1 pf fname as i)
  show ?case
  proof (cases "i < length as")
    case True
    then have d: "drop i as = as ! i # drop (Suc i) as" by (simp add: Cons_nth_drop_Suc)
    show ?thesis
    proof (cases "is_command_token pf fname (as ! i)")
      case t: True
      then have cond: "i < length as \<and> char_at (as ! i) 0 \<noteq> CHR ''-'' \<and>
         NormalizePathWithTestOptOut pf (as ! i) \<noteq> fname \<and>
         (case rfind (as ! i) CHR ''.'' of
            None \<Rightarrow> True
          | Some dot \<Rightarrow> dot + 4 < length (as ! i) \<or> isdigit (char_at (as ! i) (dot + 1)))"
        using True by (simp add: is_command_token_def)
      then have "compiler_loop pf fname as i = compiler_loop pf fname as (i + 1)"
        by (subst compiler_loop.simps) (simp only: cond simp_thms if_True)
      also have "\<dots> = i + 1 + length (takeWhile (is_command_token pf fname) (drop (i + 1) as))"
        using "1.IH" [OF cond] True by simp
      finally show ?thesis using t by (simp add: d)
    next
      case f: False
      then have "compiler_loop pf fname as i = i"
        using True by (subst compiler_loop.simps) (auto simp add: is_command_token_def)
      then show ?thesis using f by (simp add: d)
    qed
  next
    case False
    then have "compiler_loop pf fname as i = i"
      by (subst compiler_loop.simps) simp
    then show ?thesis using False by simp
  qed
qed

lemma compiler_loop_0:
  "compiler_loop pf fname as 0 = length (takeWhile (is_command_token pf fname) as)"
  using compiler_loop_takeWhile [of 0 as pf fname] by simp

lemmas StartsWith_simps = StartsWith_def StartsWithAny_def AnyStartsWith_def
  EndsWith_def suffix_to_prefix

lemmas table_simps = kBlacklistMulti_def kBlacklist_def kPathArgs_def kNormalizePathArgs_def
  kQuoteIncludeArgs_def kAngleIncludeArgs_def ShouldAddToQuoteIncludes_def
  ShouldAddToAngleIncludes_def

subsection \<open>Path clean-up and the loop over the path flags\<close>

lemma cleanup_Inr:
  "path \<noteq> [] \<Longrightarrow> \<exists>p. cleanup_maybe_relative_path pf entry path = Inr p"
  by (simp add: cleanup_maybe_relative_path_def)

lemma cleanup_Nil: "cleanup_maybe_relative_path pf entry [] = Inl AssertionFailed"
  by (simp add: cleanup_maybe_relative_path_def)

lemma cleanup_dir_cong:
  "directory e1 = directory e2 \<Longrightarrow>
   cleanup_maybe_relative_path pf e1 path = cleanup_maybe_relative_path pf e2 path"
  by (simp add: cleanup_maybe_relative_path_def)

lemma path_args_loop_dir_cong:
  "directory e1 = directory e2 \<Longrightarrow>
   path_args_loop pf e1 fl arg st c = path_args_loop pf e2 fl arg st c"
  by (induction fl) (simp_all add: cleanup_dir_cong [of e1 e2])

lemma args_loop_dir_cong:
  "directory e1 = directory e2 \<Longrightarrow>
   args_loop pf e1 xs st c out = args_loop pf e2 xs st c out"
proof (induction xs arbitrary: st c out rule: length_induct)
  case (1 xs)
  show ?case
  proof (cases xs)
    case Nil
    then show ?thesis by simp
  next
    case (Cons arg rest)
    have r: "\<And>st c out. args_loop pf e1 rest st c out = args_loop pf e2 rest st c out"
      using 1 Cons by simp
    have d: "\<And>st c out. args_loop pf e1 (drop 1 rest) st c out = args_loop pf e2 (drop 1 rest) st c out"
      using 1 Cons by simp
    show ?thesis
      unfolding Cons args_loop.simps
      by (simp only: r d cleanup_dir_cong [OF 1(2)] path_args_loop_dir_cong [OF 1(2)])
  qed
qed

lemma proper_prefix_drop:
  "StartsWith arg f \<Longrightarrow> arg \<noteq> f \<Longrightarrow> drop (length f) arg \<noteq> []"
  by (auto simp: prefix_def StartsWith_def)

lemma path_args_loop_no_split:
  "arg \<notin> set fl \<Longrightarrow> \<exists>arg' c'. path_args_loop pf e fl arg st c = Inr (arg', st, c')"
proof (induction fl)
  case Nil
  then show ?case by simp
next
  case (Cons f fl)
  then have ne: "arg \<noteq> f" and IH: "\<exists>arg' c'. path_args_loop pf e fl arg st c = Inr (arg', st, c')"
    by auto
  show ?case
  proof (cases "StartsWith arg f")
    case True
    then have nd: "drop (length f) arg \<noteq> []"
      using ne by (rule proper_prefix_drop)
    then obtain p where "cleanup_maybe_relative_path pf e (drop (length f) arg) = Inr p"
      using cleanup_Inr by blast
    then show ?thesis using True ne nd by (simp add: Let_def)
  next
    case False
    then show ?thesis using ne IH by simp
  qed
qed

lemma path_args_loop_Inr:
  "\<exists>r. path_args_loop pf e fl arg st c = Inr r"
proof (induction fl)
  case Nil
  then show ?case by simp
next
  case (Cons f fl)
  show ?case
  proof (cases "arg = f")
    case True
    then show ?thesis by simp
  next
    case ne: False
    show ?thesis
    proof (cases "StartsWith arg f")
      case True
      then have nd: "drop (length f) arg \<noteq> []"
        using ne by (rule proper_prefix_drop)
      then obtain p where "cleanup_maybe_relative_path pf e (drop (length f) arg) = Inr p"
        using cleanup_Inr by blast
      then show ?thesis using True ne nd by (simp add: Let_def)
    next
      case False
      then show ?thesis using ne Cons by simp
    qed
  qed
qed

lemma FlagState_reset:
  "st\<lparr>next_flag_is_path := False, add_next_flag_to_quote_dirs := False,
      add_next_flag_to_angle_dirs := False\<rparr> = FlagState_init"
  by (simp add: FlagState_init_def)

lemma path_args_loop_split_all:
  "\<forall>arg\<in>set kPathArgs.
     path_args_loop pf e kPathArgs arg st c =
       Inr (arg,
            st\<lparr>next_flag_is_path := True,
               add_next_flag_to_quote_dirs := ShouldAddToQuoteIncludes arg,
               add_next_flag_to_angle_dirs := ShouldAddToAngleIncludes arg\<rparr>, c)"
  by (simp add: kPathArgs_def StartsWith_def)

lemma path_args_loop_split:
  "arg \<in> set kPathArgs \<Longrightarrow>
   path_args_loop pf e kPathArgs arg st c =
     Inr (arg,
          st\<lparr>next_flag_is_path := True,
             add_next_flag_to_quote_dirs := ShouldAddToQuoteIncludes arg,
             add_next_flag_to_angle_dirs := ShouldAddToAngleIncludes arg\<rparr>, c)"
  using path_args_loop_split_all by blast

lemma kPathArgs_not_blacklisted_all:
  "\<forall>arg\<in>set kPathArgs.
   \<not> StartsWithAny arg kBlacklistMulti \<and> \<not> StartsWithAny arg kBlacklist"
  by (simp add: kPathArgs_def kBlacklistMulti_def kBlacklist_def StartsWithAny_def StartsWith_def)

lemma kPathArgs_not_blacklisted:
  "arg \<in> set kPathArgs \<Longrightarrow>
   \<not> StartsWithAny arg kBlacklistMulti \<and> \<not> StartsWithAny arg kBlacklist"
  using kPathArgs_not_blacklisted_all by blast

subsection \<open>The argument loop, step by step\<close>

text \<open>The steps of the argument loop, one per kind of token.\<close>

lemma args_loop_multi:
  "\<not> next_flag_is_path st \<Longrightarrow> StartsWithAny arg kBlacklistMulti \<Longrightarrow>
   args_loop pf e (arg # rest) st c out = args_loop pf e (drop 1 rest) st c out"
  by simp

lemma args_loop_single:
  "\<not> next_flag_is_path st \<Longrightarrow> \<not> StartsWithAny arg kBlacklistMulti \<Longrightarrow>
   StartsWithAny arg kBlacklist \<Longrightarrow>
   args_loop pf e (arg # rest) st c out = args_loop pf e rest st c out"
  by simp

lemma args_loop_value:
  "next_flag_is_path st \<Longrightarrow>
   args_loop pf e (arg # rest) st c out =
     (case cleanup_maybe_relative_path pf e arg of
        Inl err \<Rightarrow> Inl err
      | Inr normalized_arg \<Rightarrow>
          args_loop pf e rest FlagState_init
            (let config1 = (if add_next_flag_to_quote_dirs st
                            then c\<lparr>quote_dirs := insert normalized_arg (quote_dirs c)\<rparr>
                            else c)
             in (if add_next_flag_to_angle_dirs st
                 then config1\<lparr>angle_dirs := insert normalized_arg (angle_dirs config1)\<rparr>
                 else config1))
            (out @ [arg]))"
  by (simp add: FlagState_reset Let_def split: sum.splits)

lemma args_loop_other:
  "\<not> next_flag_is_path st \<Longrightarrow> \<not> StartsWithAny arg kBlacklistMulti \<Longrightarrow>
   \<not> StartsWithAny arg kBlacklist \<Longrightarrow>
   args_loop pf e (arg # rest) st c out =
     (case path_args_loop pf e kPathArgs arg st c of
        Inl err \<Rightarrow> Inl err
      | Inr (arg', st', c') \<Rightarrow> args_loop pf e rest st' c' (out @ [arg']))"
  by simp

declare args_loop.simps(2) [simp del]

lemma args_loop_split_flag:
  assumes "\<not> next_flag_is_path st" "arg \<in> set kPathArgs"
  shows "args_loop pf e (arg # v # rest) st c out =
     (case cleanup_maybe_relative_path pf e v of
        Inl err \<Rightarrow> Inl err
      | Inr normalized_arg \<Rightarrow>
          args_loop pf e rest FlagState_init
            (let config1 = (if ShouldAddToQuoteIncludes arg
                            then c\<lparr>quote_dirs := insert normalized_arg (quote_dirs c)\<rparr>
                            else c)
             in (if ShouldAddToAngleIncludes arg
                 then config1\<lparr>angle_dirs := insert normalized_arg (angle_dirs config1)\<rparr>
                 else config1))
            (out @ [arg, v]))"
proof -
  let ?st = "st\<lparr>next_flag_is_path := True,
             add_next_flag_to_quote_dirs := ShouldAddToQuoteIncludes arg,
             add_next_flag_to_angle_dirs := ShouldAddToAngleIncludes arg\<rparr>"
  have "args_loop pf e (arg # v # rest) st c out = args_loop pf e (v # rest) ?st c (out @ [arg])"
    using assms kPathArgs_not_blacklisted [OF assms(2)]
    by (simp add: args_loop_other path_args_loop_split)
  also have "\<dots> = (case cleanup_maybe_relative_path pf e v of
        Inl err \<Rightarrow> Inl err
      | Inr normalized_arg \<Rightarrow>
          args_loop pf e rest FlagState_init
            (let config1 = (if ShouldAddToQuoteIncludes arg
                            then c\<lparr>quote_dirs := insert normalized_arg (quote_dirs c)\<rparr>
                            else c)
             in (if ShouldAddToAngleIncludes arg
                 then config1\<lparr>angle_dirs := insert normalized_arg (angle_dirs config1)\<rparr>
                 else config1))
            (out @ [arg, v]))"
    by (subst args_loop_value) (simp_all split: sum.splits)
  finally show ?thesis .
qed

text \<open>A run that is consumed exactly splits the loop in two.\<close>

lemma args_loop_append:
  "consumed_exactly pre \<Longrightarrow>
   args_loop pf e (pre @ xs) FlagState_init c out =
     (case args_loop pf e pre FlagState_init c out of
        Inl err \<Rightarrow> Inl err
      | Inr (c', out') \<Rightarrow> args_loop pf e xs FlagState_init c' out')"
proof (induction pre arbitrary: c out rule: consumed_exactly.induct)
  case 1
  then show ?case by simp
next
  case (2 arg rest)
  have n: "\<not> next_flag_is_path FlagState_init" by (simp add: FlagState_init_def)
  show ?case
  proof (cases "StartsWithAny arg kBlacklistMulti")
    case True
    then have r: "rest \<noteq> []" "consumed_exactly (drop 1 rest)" using "2.prems" by auto
    then have "drop 1 (rest @ xs) = drop 1 rest @ xs" by (cases rest) auto
    then show ?thesis
      using "2.IH"(1) [OF True r(2)] True n by (simp add: args_loop_multi)
  next
    case multi: False
    show ?thesis
    proof (cases "StartsWithAny arg kBlacklist")
      case True
      then have "consumed_exactly rest" using "2.prems" multi by auto
      then show ?thesis
        using "2.IH"(2) [OF multi True] True multi n by (simp add: args_loop_single)
    next
      case single: False
      show ?thesis
      proof (cases "arg \<in> set kPathArgs")
        case True
        then have r: "rest \<noteq> []" "consumed_exactly (drop 1 rest)"
          using "2.prems" multi single by auto
        then obtain v rest' where rest: "rest = v # rest'" by (cases rest) auto
        then have ce: "consumed_exactly rest'" using r by simp
        have IH: "\<And>c out. args_loop pf e (rest' @ xs) FlagState_init c out =
           (case args_loop pf e rest' FlagState_init c out of
              Inl err \<Rightarrow> Inl err
            | Inr (c', out') \<Rightarrow> args_loop pf e xs FlagState_init c' out')"
          using "2.IH"(3) [OF multi single True] r(2) rest by simp
        show ?thesis
          unfolding rest
          by (simp add: args_loop_split_flag [OF n True] IH split: sum.splits)
      next
        case False
        then have ce: "consumed_exactly rest" using "2.prems" multi single by auto
        obtain arg' c' where p: "path_args_loop pf e kPathArgs arg FlagState_init c =
            Inr (arg', FlagState_init, c')"
          using path_args_loop_no_split [OF False] by blast
        show ?thesis
          using "2.IH"(4) [OF multi single False ce]
          by (simp add: args_loop_other [OF n multi single] p)
      qed
    qed
  qed
qed

subsection \<open>Dropping a multi-token flag and its follower\<close>

lemma multi_dash: "StartsWithAny tok kBlacklistMulti \<Longrightarrow> char_at tok 0 = CHR ''-''"
  by (auto simp: StartsWithAny_def StartsWith_def kBlacklistMulti_def prefix_def char_at_def)

lemma multi_not_guard:
  "StartsWithAny tok kBlacklistMulti \<Longrightarrow>
   \<not> StartsWith tok ''-working-directory'' \<and> \<not> StartsWith tok ''-x'' \<and>
   \<not> StartsWith tok ''-std=''"
  by (auto simp: StartsWithAny_def StartsWith_def kBlacklistMulti_def prefix_def)

lemma dash_not_command: "char_at tok 0 = CHR ''-'' \<Longrightarrow> \<not> is_command_token pf fname tok"
  by (simp add: is_command_token_def)

lemma compiler_loop_stop:
  assumes "\<not> is_command_token pf fname tok"
    and "compiler_loop pf fname (pre @ rest) 0 \<le> length pre"
  shows "compiler_loop pf fname (pre @ tok # ys) 0 = compiler_loop pf fname (pre @ rest) 0"
proof (cases "\<forall>x\<in>set pre. is_command_token pf fname x")
  case True
  then have "takeWhile (is_command_token pf fname) (pre @ rest) =
      pre @ takeWhile (is_command_token pf fname) rest"
    by (simp add: takeWhile_append2)
  then have "takeWhile (is_command_token pf fname) rest = []"
    using assms(2) by (simp add: compiler_loop_0)
  then show ?thesis using True assms(1) by (simp add: compiler_loop_0 takeWhile_append2)
next
  case False
  then obtain x where "x \<in> set pre" "\<not> is_command_token pf fname x" by blast
  then show ?thesis by (simp add: compiler_loop_0 takeWhile_append1)
qed

lemma AnyStartsWith_append:
  "AnyStartsWith (xs @ ys) s = (AnyStartsWith xs s \<or> AnyStartsWith ys s)"
  by (simp add: AnyStartsWith_def list_ex_iff) blast

lemma AnyStartsWith_Cons:
  "AnyStartsWith (x # xs) s = (StartsWith x s \<or> AnyStartsWith xs s)"
  by (simp add: AnyStartsWith_def)

lemma classifier_drop_pair:
  assumes multi: "StartsWithAny tok kBlacklistMulti"
    and i: "compiler_loop pf (NormalizePathWithTestOptOut pf (file entry)) (pre @ rest) 0
              \<le> length pre"
    and ce: "consumed_exactly
              (drop (compiler_loop pf (NormalizePathWithTestOptOut pf (file entry)) (pre @ rest) 0)
                 pre)"
    and nxt: "\<not> StartsWith nxt ''-working-directory''" "\<not> StartsWith nxt ''-x''"
      "\<not> StartsWith nxt ''-std=''"
  shows "GetCompilationEntryFromCompileCommandEntry pf config
           (entry\<lparr>args_raw := pre @ tok # nxt # rest\<rparr>) =
         GetCompilationEntryFromCompileCommandEntry pf config (entry\<lparr>args_raw := pre @ rest\<rparr>)"
proof -
  let ?fname = "NormalizePathWithTestOptOut pf (file entry)"
  let ?e1 = "entry\<lparr>args_raw := pre @ tok # nxt # rest\<rparr>"
  let ?e2 = "entry\<lparr>args_raw := pre @ rest\<rparr>"
  let ?i = "compiler_loop pf ?fname (pre @ rest) 0"
  have i1: "compiler_loop pf ?fname (pre @ tok # nxt # rest) 0 = ?i"
    using compiler_loop_stop [OF dash_not_command [OF multi_dash [OF multi]] i] .
  have c: "compiler_args ?e1 ?i = compiler_args ?e2 ?i"
  proof (cases "0 < ?i")
    case True
    then have "?i - 1 < length pre" using i by linarith
    then show ?thesis by (simp add: compiler_args_def nth_append)
  next
    case False
    then show ?thesis by (simp add: compiler_args_def)
  qed
  have g: "AnyStartsWith (pre @ tok # nxt # rest) ''-working-directory'' =
             AnyStartsWith (pre @ rest) ''-working-directory''"
    "AnyStartsWith (pre @ tok # nxt # rest) ''-x'' = AnyStartsWith (pre @ rest) ''-x''"
    "AnyStartsWith (pre @ tok # nxt # rest) ''-std='' = AnyStartsWith (pre @ rest) ''-std=''"
    using multi_not_guard [OF multi] nxt
    by (simp_all add: AnyStartsWith_append AnyStartsWith_Cons)
  have w: "working_directory_args ?e1 = working_directory_args ?e2"
    by (simp add: working_directory_args_def g)
  have s: "source_type_args ?e1 = source_type_args ?e2"
    by (simp add: source_type_args_def g cong: option.case_cong)
  have n: "\<not> next_flag_is_path FlagState_init" by (simp add: FlagState_init_def)
  have l: "args_loop pf ?e1 (drop ?i (pre @ tok # nxt # rest)) FlagState_init config out =
           args_loop pf ?e2 (drop ?i (pre @ rest)) FlagState_init config out" for out
  proof -
    have "args_loop pf ?e1 (drop ?i (pre @ tok # nxt # rest)) FlagState_init config out =
          args_loop pf ?e2 (drop ?i pre @ tok # nxt # rest) FlagState_init config out"
      using i by (simp add: args_loop_dir_cong [of ?e1 ?e2])
    also have "\<dots> = (case args_loop pf ?e2 (drop ?i pre) FlagState_init config out of
        Inl err \<Rightarrow> Inl err
      | Inr (c', out') \<Rightarrow> args_loop pf ?e2 (tok # nxt # rest) FlagState_init c' out')"
      by (rule args_loop_append [OF ce])
    also have "\<dots> = (case args_loop pf ?e2 (drop ?i pre) FlagState_init config out of
        Inl err \<Rightarrow> Inl err
      | Inr (c', out') \<Rightarrow> args_loop pf ?e2 rest FlagState_init c' out')"
      by (simp add: args_loop_multi [OF n multi] split: sum.splits)
    also have "\<dots> = args_loop pf ?e2 (drop ?i pre @ rest) FlagState_init config out"
      by (rule args_loop_append [OF ce, symmetric])
    finally show ?thesis using i by simp
  qed
  show ?thesis
    by (simp add: GetCompilationEntryFromCompileCommandEntry_def Let_def i1 c w s l
        del: drop_append)
qed

subsection \<open>The assertions\<close>

lemma path_values_nonempty_Cons: "path_values_nonempty (a # xs) \<Longrightarrow> path_values_nonempty xs"
  by (cases xs) auto

lemma path_values_nonempty_drop: "path_values_nonempty xs \<Longrightarrow> path_values_nonempty (drop n xs)"
proof (induction n arbitrary: xs)
  case 0
  then show ?case by simp
next
  case (Suc n)
  then show ?case by (cases xs) (auto dest: path_values_nonempty_Cons)
qed

lemma args_loop_no_failure:
  "path_values_nonempty xs \<Longrightarrow> (next_flag_is_path st \<longrightarrow> xs \<noteq> [] \<longrightarrow> hd xs \<noteq> []) \<Longrightarrow>
   \<exists>r. args_loop pf e xs st c out = Inr r"
proof (induction xs arbitrary: st c out rule: length_induct)
  case (1 xs)
  show ?case
  proof (cases xs)
    case Nil
    then show ?thesis by simp
  next
    case (Cons arg rest)
    have pr: "path_values_nonempty rest"
      using "1.prems"(1) Cons path_values_nonempty_Cons by blast
    have IHn: "\<exists>r. args_loop pf e ys st' c' out' = Inr r"
      if "length ys < length xs" "path_values_nonempty ys" "\<not> next_flag_is_path st'"
      for ys st' c' out'
      using "1.IH" that by blast
    show ?thesis
    proof (cases "next_flag_is_path st")
      case True
      then have "arg \<noteq> []" using "1.prems"(2) Cons by simp
      then obtain p where p: "cleanup_maybe_relative_path pf e arg = Inr p"
        using cleanup_Inr by blast
      have n: "\<not> next_flag_is_path FlagState_init" by (simp add: FlagState_init_def)
      show ?thesis
        unfolding Cons
        using IHn [OF _ pr n] Cons by (simp add: args_loop_value [OF True] p)
    next
      case False
      show ?thesis
      proof (cases "StartsWithAny arg kBlacklistMulti")
        case True
        have "path_values_nonempty (drop 1 rest)"
          using pr by (rule path_values_nonempty_drop)
        then show ?thesis
          unfolding Cons
          using IHn [of "drop 1 rest" st] False Cons by (simp add: args_loop_multi [OF False True])
      next
        case multi: False
        show ?thesis
        proof (cases "StartsWithAny arg kBlacklist")
          case True
          then show ?thesis
            unfolding Cons
            using IHn [of rest st] False pr Cons by (simp add: args_loop_single [OF False multi True])
        next
          case single: False
          show ?thesis
          proof (cases "arg \<in> set kPathArgs")
            case True
            let ?st = "st\<lparr>next_flag_is_path := True,
               add_next_flag_to_quote_dirs := ShouldAddToQuoteIncludes arg,
               add_next_flag_to_angle_dirs := ShouldAddToAngleIncludes arg\<rparr>"
            have "rest \<noteq> [] \<longrightarrow> hd rest \<noteq> []"
              using "1.prems"(1) Cons True by (cases rest) auto
            then have "\<exists>r. args_loop pf e rest ?st c (out @ [arg]) = Inr r"
              using "1.IH" pr Cons by simp
            then show ?thesis
              unfolding Cons
              by (simp add: args_loop_other [OF False multi single] path_args_loop_split [OF True])
          next
            case np: False
            obtain arg' c' where p: "path_args_loop pf e kPathArgs arg st c = Inr (arg', st, c')"
              using path_args_loop_no_split [OF np] by blast
            show ?thesis
              unfolding Cons
              using IHn [of rest st] False pr Cons
              by (simp add: args_loop_other [OF False multi single] p)
          qed
        qed
      qed
    qed
  qed
qed

lemma classifier_no_failure:
  assumes "path_values_nonempty (args_raw entry)"
  shows "\<exists>r. GetCompilationEntryFromCompileCommandEntry pf config entry = Inr r"
proof -
  let ?i = "compiler_loop pf (NormalizePathWithTestOptOut pf (file entry)) (args_raw entry) 0"
  have "path_values_nonempty (drop ?i (args_raw entry))"
    using assms by (rule path_values_nonempty_drop)
  then obtain c' out' where "args_loop pf entry (drop ?i (args_raw entry)) FlagState_init config
      (compiler_args entry ?i @ working_directory_args entry @ source_type_args entry)
        = Inr (c', out')"
    using args_loop_no_failure [of "drop ?i (args_raw entry)" FlagState_init]
    by (fastforce simp: FlagState_init_def)
  then show ?thesis
    by (simp add: GetCompilationEntryFromCompileCommandEntry_def Let_def)
qed

lemma kPathArgs_dash_all: "\<forall>flag\<in>set kPathArgs. char_at flag 0 = CHR ''-''"
  by (simp add: kPathArgs_def char_at_def)

lemma compiler_loop_le: "compiler_loop pf fname as 0 \<le> length as"
  by (simp add: compiler_loop_0 length_takeWhile_le)

lemma classifier_empty_path_value:
  assumes flag: "flag \<in> set kPathArgs"
    and ce: "consumed_exactly
               (drop (compiler_loop pf (NormalizePathWithTestOptOut pf (file entry)) pre 0) pre)"
  shows "GetCompilationEntryFromCompileCommandEntry pf config
           (entry\<lparr>args_raw := pre @ flag # [] # rest\<rparr>) = Inl AssertionFailed"
proof -
  let ?fname = "NormalizePathWithTestOptOut pf (file entry)"
  let ?e = "entry\<lparr>args_raw := pre @ flag # [] # rest\<rparr>"
  let ?i = "compiler_loop pf ?fname pre 0"
  have "\<not> is_command_token pf ?fname flag"
    using kPathArgs_dash_all flag dash_not_command by blast
  then have i: "compiler_loop pf ?fname (pre @ flag # [] # rest) 0 = ?i"
    using compiler_loop_stop [of pf ?fname flag pre "[]"] compiler_loop_le [of pf ?fname pre]
    by simp
  have le: "?i \<le> length pre" by (rule compiler_loop_le)
  have n: "\<not> next_flag_is_path FlagState_init" by (simp add: FlagState_init_def)
  have "args_loop pf ?e (drop ?i pre @ flag # [] # rest) FlagState_init config out =
     (case args_loop pf ?e (drop ?i pre) FlagState_init config out of
        Inl err \<Rightarrow> Inl err
      | Inr (c', out') \<Rightarrow> args_loop pf ?e (flag # [] # rest) FlagState_init c' out')" for out
    by (rule args_loop_append [OF ce])
  moreover have "args_loop pf ?e (flag # [] # rest) FlagState_init c' out' = Inl AssertionFailed"
    for c' out'
    by (simp add: args_loop_split_flag [OF n flag] cleanup_Nil)
  ultimately have "\<exists>err. args_loop pf ?e (drop ?i pre @ flag # [] # rest) FlagState_init config out
      = Inl err" for out
    by (simp split: sum.splits prod.splits)
  moreover have "err = AssertionFailed" for err :: error
    by (cases err) simp
  moreover have "drop ?i (pre @ flag # [] # rest) = drop ?i pre @ flag # [] # rest"
    using le by simp
  ultimately have l: "args_loop pf ?e (drop ?i (pre @ flag # [] # rest)) FlagState_init config out
      = Inl AssertionFailed" for out
    by metis
  show ?thesis
    by (simp add: GetCompilationEntryFromCompileCommandEntry_def Let_def i l del: drop_append)
qed

subsection \<open>Evaluation on given arguments\<close>

lemmas classifier_eval =
  GetCompilationEntryFromCompileCommandEntry_def Let_def compiler_loop_0 is_command_token_def
  char_at_def isdigit_def NormalizePathWithTestOptOut_def compiler_args_def
  working_directory_args_def source_type_args_def SourceFileType_def trailing_args_def
  StartsWith_simps table_simps args_loop.simps(2) cleanup_maybe_relative_path_def
  FlagState_init_def Entry_default_def test_platform_def test_config_def test_entry_def

lemma args_loop_split_I:
  "foo \<noteq> [] \<Longrightarrow>
   args_loop pf e [''-I'', foo] FlagState_init c out =
     Inr (c\<lparr>angle_dirs :=
            insert (NormalizePathWithTestOptOut pf
                     (if char_at foo 0 = CHR ''/'' \<or> directory e = [] then foo
                      else directory e @ ''/'' @ foo)) (angle_dirs c)\<rparr>,
          out @ [''-I'', foo])"
  by (simp add: args_loop.simps(2) FlagState_init_def table_simps StartsWith_simps
      cleanup_maybe_relative_path_def)

lemma args_loop_fused_I:
  "foo \<noteq> [] \<Longrightarrow>
   args_loop pf e [CHR ''-'' # CHR ''I'' # foo] FlagState_init c out =
     Inr (c\<lparr>angle_dirs :=
            insert (NormalizePathWithTestOptOut pf
                     (if char_at foo 0 = CHR ''/'' \<or> directory e = [] then foo
                      else directory e @ ''/'' @ foo)) (angle_dirs c)\<rparr>,
          out @ [CHR ''-'' # CHR ''I'' # foo])"
  by (simp add: args_loop.simps(2) FlagState_init_def table_simps StartsWith_simps
      cleanup_maybe_relative_path_def)

subsection \<open>Feeding the output to the loop again\<close>

lemma StartsWith_refl: "StartsWith x x"
  by (simp add: StartsWith_def)

lemma StartsWithAny_mem: "f \<in> set fl \<Longrightarrow> StartsWith tok f \<Longrightarrow> StartsWithAny tok fl"
  by (auto simp: StartsWithAny_def list_ex_iff)

lemma path_args_loop_plain:
  "\<not> StartsWithAny t fl \<Longrightarrow> path_args_loop pf e fl t st c = Inr (t, st, c)"
proof (induction fl)
  case Nil
  then show ?case by simp
next
  case (Cons f fl)
  then have "\<not> StartsWith t f" "\<not> StartsWithAny t fl"
    by (simp_all add: StartsWithAny_def)
  moreover from this have "t \<noteq> f" using StartsWith_refl by blast
  ultimately show ?case using Cons.IH by simp
qed

lemma args_loop_plain_normal:
  assumes "\<not> StartsWithAny t kBlacklistMulti" "\<not> StartsWithAny t kBlacklist"
    "\<not> StartsWithAny t kPathArgs" "\<not> next_flag_is_path st"
  shows "args_loop pf e (t # xs) st c out = args_loop pf e xs st c (out @ [t])"
  by (simp add: args_loop_other [OF assms(4,1,2)] path_args_loop_plain [OF assms(3)])

lemma args_loop_plain_all:
  "\<forall>t\<in>set ys. plain_token t \<Longrightarrow> \<exists>c'. args_loop pf e ys st c out = Inr (c', out @ ys)"
proof (induction ys arbitrary: st c out)
  case Nil
  then show ?case by simp
next
  case (Cons t ys)
  then have t: "plain_token t" and ys: "\<forall>t\<in>set ys. plain_token t" by simp_all
  show ?case
  proof (cases "next_flag_is_path st")
    case True
    obtain p where p: "cleanup_maybe_relative_path pf e t = Inr p"
      using cleanup_Inr t unfolding plain_token_def by blast
    show ?thesis
      using Cons.IH [OF ys, of FlagState_init _ "out @ [t]"]
      by (simp add: args_loop_value [OF True] p)
  next
    case False
    show ?thesis
      using Cons.IH [OF ys, of st c "out @ [t]"] t
      by (simp add: args_loop_plain_normal [OF _ _ _ False] plain_token_def)
  qed
qed

lemma path_args_loop_config_indep:
  "path_args_loop pf e fl arg st c = Inr (a, s, c') \<Longrightarrow>
   \<exists>cA'. path_args_loop pf e fl arg st cA = Inr (a, s, cA')"
proof (induction fl)
  case Nil
  then show ?case by simp
next
  case (Cons f fl)
  show ?case
  proof (cases "arg = f")
    case True
    then show ?thesis using Cons.prems by auto
  next
    case ne: False
    show ?thesis
    proof (cases "StartsWith arg f")
      case True
      then show ?thesis using Cons.prems ne
        by (auto simp: Let_def split: if_splits sum.splits)
    next
      case False
      then show ?thesis using Cons ne by simp
    qed
  qed
qed

lemma path_args_loop_keeps_arg:
  "\<not> StartsWithAny arg kNormalizePathArgs \<Longrightarrow>
   path_args_loop pf e fl arg st c = Inr (a, s, c') \<Longrightarrow> a = arg"
proof (induction fl)
  case Nil
  then show ?case by simp
next
  case (Cons f fl)
  show ?case
  proof (cases "arg = f")
    case True
    then show ?thesis using Cons.prems by simp
  next
    case ne: False
    show ?thesis
    proof (cases "StartsWith arg f")
      case True
      then show ?thesis using Cons.prems ne
        by (auto simp: Let_def split: if_splits sum.splits)
    next
      case False
      then show ?thesis using Cons ne by simp
    qed
  qed
qed

lemma path_args_loop_sysroot:
  "p \<noteq> [] \<Longrightarrow>
   path_args_loop pf e kPathArgs
     (CHR ''-'' # CHR ''-'' # CHR ''s'' # CHR ''y'' # CHR ''s'' # CHR ''r'' # CHR ''o'' # CHR ''o''
        # CHR ''t'' # CHR ''='' # p) st c =
     (case cleanup_maybe_relative_path pf e p of
        Inl err \<Rightarrow> Inl err
      | Inr q \<Rightarrow> Inr (''--sysroot='' @ q, st, c))"
  by (simp add: table_simps StartsWith_simps split: sum.splits)

lemma sysroot_form:
  "StartsWithAny arg kNormalizePathArgs \<Longrightarrow>
   \<exists>p. arg = CHR ''-'' # CHR ''-'' # CHR ''s'' # CHR ''y'' # CHR ''s'' # CHR ''r'' # CHR ''o''
          # CHR ''o'' # CHR ''t'' # CHR ''='' # p"
  by (auto simp: table_simps StartsWith_simps prefix_def)

lemma sysroot_not_blacklisted:
  "\<not> StartsWithAny (''--sysroot='' @ q) kBlacklistMulti \<and>
   \<not> StartsWithAny (''--sysroot='' @ q) kBlacklist"
  by (simp add: table_simps StartsWith_simps)

lemma sysroot_not_flag: "q \<noteq> [] \<Longrightarrow> ''--sysroot='' @ q \<notin> set kPathArgs"
  by (simp add: table_simps)

lemma cleanup_absolute:
  assumes "absolute_idempotent pf" "cleanup_maybe_relative_path pf e p = Inr q"
  shows "q \<noteq> [] \<and> cleanup_maybe_relative_path pf e q = Inr q"
proof -
  obtain r where q: "q = NormalizePathWithTestOptOut pf r"
    using assms(2) by (auto simp: cleanup_maybe_relative_path_def split: if_splits)
  have c: "char_at q 0 = CHR ''/''" and n: "NormalizePathWithTestOptOut pf q = q"
    using assms(1) unfolding absolute_idempotent_def q by simp_all
  have "q \<noteq> []" using c by (auto simp: char_at_def)
  then show ?thesis using c n by (simp add: cleanup_maybe_relative_path_def)
qed

lemma path_args_loop_refeed:
  assumes N: "absolute_idempotent pf \<or> \<not> StartsWithAny arg kNormalizePathArgs"
    and nb: "\<not> StartsWithAny arg kBlacklistMulti" "\<not> StartsWithAny arg kBlacklist"
    and nf: "arg \<notin> set kPathArgs"
    and r: "path_args_loop pf e kPathArgs arg st c = Inr (a, s, c')"
  shows "s = st \<and> \<not> StartsWithAny a kBlacklistMulti \<and> \<not> StartsWithAny a kBlacklist \<and>
         a \<notin> set kPathArgs \<and>
         (absolute_idempotent pf \<or> \<not> StartsWithAny a kNormalizePathArgs) \<and>
         (\<exists>cA'. path_args_loop pf e kPathArgs a st cA = Inr (a, st, cA'))"
proof -
  have s: "s = st" using path_args_loop_no_split [OF nf, of pf e st c] r by auto
  show ?thesis
  proof (cases "StartsWithAny arg kNormalizePathArgs")
    case True
    then have abs: "absolute_idempotent pf" using N by blast
    obtain p where arg: "arg = CHR ''-'' # CHR ''-'' # CHR ''s'' # CHR ''y'' # CHR ''s'' # CHR ''r''
        # CHR ''o'' # CHR ''o'' # CHR ''t'' # CHR ''='' # p"
      using sysroot_form [OF True] by blast
    have p: "p \<noteq> []" using nf unfolding arg by (auto simp: kPathArgs_def)
    obtain q where q: "cleanup_maybe_relative_path pf e p = Inr q"
      using cleanup_Inr [OF p] by blast
    have a: "a = ''--sysroot='' @ q"
      using r unfolding arg by (simp add: path_args_loop_sysroot [OF p] q)
    have qq: "q \<noteq> []" "cleanup_maybe_relative_path pf e q = Inr q"
      using cleanup_absolute [OF abs q] by simp_all
    have "path_args_loop pf e kPathArgs a st cA = Inr (a, st, cA)"
      unfolding a using path_args_loop_sysroot [OF qq(1), of pf e st cA] by (simp add: qq(2))
    then show ?thesis
      using s abs sysroot_not_blacklisted [of q] sysroot_not_flag [OF qq(1)] unfolding a by blast
  next
    case False
    then have a: "a = arg" using path_args_loop_keeps_arg r by blast
    show ?thesis
      using path_args_loop_config_indep [OF r, of cA] s nb nf False unfolding a by blast
  qed
qed

lemma args_loop_refeed:
  assumes "absolute_idempotent pf \<or> (\<forall>x\<in>set xs. \<not> StartsWithAny x kNormalizePathArgs)"
    and "args_loop pf e xs st c out = Inr (c', out')"
  shows "\<exists>B. out' = out @ B \<and>
           (\<forall>ys cA outA. (\<forall>t\<in>set ys. plain_token t) \<longrightarrow>
              (\<exists>cB. args_loop pf e (B @ ys) st cA outA = Inr (cB, outA @ B @ ys)))"
  using assms
proof (induction xs arbitrary: st c out rule: length_induct)
  case (1 xs)
  show ?case
  proof (cases xs)
    case Nil
    then have "out' = out" using "1.prems"(2) by simp
    then show ?thesis using args_loop_plain_all by (intro exI [of _ "[]"]) simp
  next
    case (Cons arg rest)
    have Nrest: "absolute_idempotent pf \<or> (\<forall>x\<in>set rest. \<not> StartsWithAny x kNormalizePathArgs)"
      using "1.prems"(1) Cons by auto
    have Ndrop: "absolute_idempotent pf \<or>
        (\<forall>x\<in>set (drop 1 rest). \<not> StartsWithAny x kNormalizePathArgs)"
      using Nrest by (auto dest: in_set_dropD)
    have Narg: "absolute_idempotent pf \<or> \<not> StartsWithAny arg kNormalizePathArgs"
      using "1.prems"(1) Cons by auto
    have IH: "\<exists>B. out' = out2 @ B \<and>
           (\<forall>ys cA outA. (\<forall>t\<in>set ys. plain_token t) \<longrightarrow>
              (\<exists>cB. args_loop pf e (B @ ys) st2 cA outA = Inr (cB, outA @ B @ ys)))"
      if "length zs < length xs"
        "absolute_idempotent pf \<or> (\<forall>x\<in>set zs. \<not> StartsWithAny x kNormalizePathArgs)"
        "args_loop pf e zs st2 c2 out2 = Inr (c', out')"
      for zs st2 c2 out2
      using "1.IH" that by blast
    have run: "args_loop pf e (arg # rest) st c out = Inr (c', out')"
      using "1.prems"(2) Cons by simp
    show ?thesis
    proof (cases "next_flag_is_path st")
      case True
      obtain n where n: "cleanup_maybe_relative_path pf e arg = Inr n"
        using run by (auto simp: args_loop_value [OF True] split: sum.splits)
      obtain c2 where "args_loop pf e rest FlagState_init c2 (out @ [arg]) = Inr (c', out')"
        using run by (simp add: args_loop_value [OF True] n)
      from IH [OF _ Nrest this] Cons obtain B where
        B: "out' = (out @ [arg]) @ B"
          "\<And>ys cA outA. \<forall>t\<in>set ys. plain_token t \<Longrightarrow>
             \<exists>cB. args_loop pf e (B @ ys) FlagState_init cA outA = Inr (cB, outA @ B @ ys)"
        by auto
      have "\<exists>cB. args_loop pf e ((arg # B) @ ys) st cA outA = Inr (cB, outA @ (arg # B) @ ys)"
        if "\<forall>t\<in>set ys. plain_token t" for ys cA outA
      proof -
        obtain cA2 where "args_loop pf e ((arg # B) @ ys) st cA outA =
            args_loop pf e (B @ ys) FlagState_init cA2 (outA @ [arg])"
          by (simp add: args_loop_value [OF True] n)
        then show ?thesis using B(2) [OF that, of cA2 "outA @ [arg]"] by simp
      qed
      then show ?thesis using B(1) by (intro exI [of _ "arg # B"]) simp
    next
      case normal: False
      show ?thesis
      proof (cases "StartsWithAny arg kBlacklistMulti")
        case True
        have "args_loop pf e (drop 1 rest) st c out = Inr (c', out')"
          using run by (simp add: args_loop_multi [OF normal True])
        from IH [OF _ Ndrop this] Cons show ?thesis by simp
      next
        case multi: False
        show ?thesis
        proof (cases "StartsWithAny arg kBlacklist")
          case True
          have "args_loop pf e rest st c out = Inr (c', out')"
            using run by (simp add: args_loop_single [OF normal multi True])
          from IH [OF _ Nrest this] Cons show ?thesis by simp
        next
          case single: False
          obtain a s c2 where pal: "path_args_loop pf e kPathArgs arg st c = Inr (a, s, c2)"
            using path_args_loop_Inr [of pf e kPathArgs arg st c] by (metis prod_cases3)
          have rest_run: "args_loop pf e rest s c2 (out @ [a]) = Inr (c', out')"
            using run by (simp add: args_loop_other [OF normal multi single] pal)
          from IH [OF _ Nrest this] Cons obtain B where
            B: "out' = (out @ [a]) @ B"
              "\<And>ys cA outA. \<forall>t\<in>set ys. plain_token t \<Longrightarrow>
                 \<exists>cB. args_loop pf e (B @ ys) s cA outA = Inr (cB, outA @ B @ ys)"
            by auto
          have again: "\<not> StartsWithAny a kBlacklistMulti \<and> \<not> StartsWithAny a kBlacklist \<and>
              (\<exists>cA'. path_args_loop pf e kPathArgs a st cA = Inr (a, s, cA'))" for cA
          proof (cases "arg \<in> set kPathArgs")
            case True
            then have "a = arg" "s = st\<lparr>next_flag_is_path := True,
               add_next_flag_to_quote_dirs := ShouldAddToQuoteIncludes arg,
               add_next_flag_to_angle_dirs := ShouldAddToAngleIncludes arg\<rparr>"
              using pal by (auto simp: path_args_loop_split)
            then show ?thesis using True multi single by (simp add: path_args_loop_split)
          next
            case False
            then show ?thesis
              using path_args_loop_refeed [OF Narg multi single False pal, of cA] by blast
          qed
          have "\<exists>cB. args_loop pf e ((a # B) @ ys) st cA outA = Inr (cB, outA @ (a # B) @ ys)"
            if "\<forall>t\<in>set ys. plain_token t" for ys cA outA
          proof -
            obtain cA' where cA': "path_args_loop pf e kPathArgs a st cA = Inr (a, s, cA')"
              using again by blast
            have "args_loop pf e ((a # B) @ ys) st cA outA =
                args_loop pf e (B @ ys) s cA' (outA @ [a])"
              using again [of cA] by (simp add: args_loop_other [OF normal] cA')
            then show ?thesis using B(2) [OF that, of cA' "outA @ [a]"] by simp
          qed
          then show ?thesis using B(1) by (intro exI [of _ "a # B"]) simp
        qed
      qed
    qed
  qed
qed

subsection \<open>The tokens pushed before and after the loop\<close>

lemma path_args_loop_extra_flags:
  "path_args_loop pf e fl arg st c = Inr (a, s, c') \<Longrightarrow> extra_flags c' = extra_flags c"
proof (induction fl)
  case Nil
  then show ?case by simp
next
  case (Cons f fl)
  then show ?case
    by (auto simp: Let_def split: if_splits sum.splits)
qed

lemma args_loop_extra_flags:
  "args_loop pf e xs st c out = Inr (c', out') \<Longrightarrow> extra_flags c' = extra_flags c"
proof (induction xs arbitrary: st c out rule: length_induct)
  case (1 xs)
  show ?case
  proof (cases xs)
    case Nil
    then show ?thesis using "1.prems" by simp
  next
    case (Cons arg rest)
    have IH: "extra_flags c' = extra_flags c2"
      if "length zs < length xs" "args_loop pf e zs st2 c2 out2 = Inr (c', out')"
      for zs st2 c2 out2
      using "1.IH" that by blast
    have run: "args_loop pf e (arg # rest) st c out = Inr (c', out')"
      using "1.prems" Cons by simp
    show ?thesis
    proof (cases "next_flag_is_path st")
      case True
      obtain n where n: "cleanup_maybe_relative_path pf e arg = Inr n"
        using run by (auto simp: args_loop_value [OF True] split: sum.splits)
      obtain c2 where "args_loop pf e rest FlagState_init c2 (out @ [arg]) = Inr (c', out')"
        "extra_flags c2 = extra_flags c"
        using run by (simp add: args_loop_value [OF True] n Let_def)
      then show ?thesis using IH [of rest] Cons by simp
    next
      case normal: False
      show ?thesis
      proof (cases "StartsWithAny arg kBlacklistMulti")
        case True
        have "args_loop pf e (drop 1 rest) st c out = Inr (c', out')"
          using run by (simp add: args_loop_multi [OF normal True])
        then show ?thesis using IH [of "drop 1 rest"] Cons by simp
      next
        case multi: False
        show ?thesis
        proof (cases "StartsWithAny arg kBlacklist")
          case True
          have "args_loop pf e rest st c out = Inr (c', out')"
            using run by (simp add: args_loop_single [OF normal multi True])
          then show ?thesis using IH [of rest] Cons by simp
        next
          case single: False
          obtain a s c2 where pal: "path_args_loop pf e kPathArgs arg st c = Inr (a, s, c2)"
            using path_args_loop_Inr [of pf e kPathArgs arg st c] by (metis prod_cases3)
          have "args_loop pf e rest s c2 (out @ [a]) = Inr (c', out')"
            using run by (simp add: args_loop_other [OF normal multi single] pal)
          then show ?thesis
            using IH [of rest] Cons path_args_loop_extra_flags [OF pal] by simp
        qed
      qed
    qed
  qed
qed

lemma plain_resource_dir: "plain_token (''-resource-dir='' @ rd)"
  by (simp add: plain_token_def table_simps StartsWith_simps)

lemma plain_fixed:
  "plain_token ''-Wno-unknown-warning-option''" "plain_token ''-fparse-all-comments''"
  "plain_token ''-working-directory''"
  by (simp_all add: plain_token_def table_simps StartsWith_simps)

lemma AnyStartsWith_snoc:
  "AnyStartsWith (xs @ [x]) s = (AnyStartsWith xs s \<or> StartsWith x s)"
  by (auto simp: AnyStartsWith_def list_ex_iff)

lemma trailing_args_shape:
  assumes "extra_flags c = []"
  shows "\<exists>T. trailing_args c r = r @ T \<and> (\<forall>t\<in>set T. plain_token t) \<and>
           AnyStartsWith (r @ T) ''-resource-dir'' \<and>
           AnyStartsWith (r @ T) ''-Wno-unknown-warning-option'' \<and>
           AnyStartsWith (r @ T) ''-fparse-all-comments''"
proof -
  define T1 where "T1 = (if \<not> AnyStartsWith r ''-resource-dir''
                         then [''-resource-dir='' @ resource_dir c] else [])"
  define T2 where "T2 = (if \<not> AnyStartsWith (r @ T1) ''-Wno-unknown-warning-option''
                         then [''-Wno-unknown-warning-option''] else [])"
  define T3 where "T3 = (if \<not> AnyStartsWith (r @ T1 @ T2) ''-fparse-all-comments''
                         then [''-fparse-all-comments''] else [])"
  have t: "trailing_args c r = r @ T1 @ T2 @ T3"
    by (simp add: trailing_args_def assms Let_def T1_def T2_def T3_def)
  have p: "\<forall>t\<in>set (T1 @ T2 @ T3). plain_token t"
    using plain_resource_dir plain_fixed by (simp add: T1_def T2_def T3_def)
  have g1: "AnyStartsWith (r @ T1) ''-resource-dir''"
    by (simp add: T1_def AnyStartsWith_snoc StartsWith_def)
  have g2: "AnyStartsWith (r @ T1 @ T2) ''-Wno-unknown-warning-option''"
    by (simp add: T2_def AnyStartsWith_snoc StartsWith_def flip: append_assoc)
  have g3: "AnyStartsWith (r @ T1 @ T2 @ T3) ''-fparse-all-comments''"
    by (simp add: T3_def AnyStartsWith_snoc StartsWith_def flip: append_assoc)
  have "AnyStartsWith (r @ T1 @ T2 @ T3) ''-resource-dir''"
    "AnyStartsWith (r @ T1 @ T2 @ T3) ''-Wno-unknown-warning-option''"
    using g1 g2 by (auto simp: AnyStartsWith_append)
  then show ?thesis using t p g3 by (intro exI [of _ "T1 @ T2 @ T3"]) simp
qed

lemma trailing_args_fixed:
  assumes "extra_flags c = []" "AnyStartsWith r ''-resource-dir''"
    "AnyStartsWith r ''-Wno-unknown-warning-option''" "AnyStartsWith r ''-fparse-all-comments''"
  shows "trailing_args c r = r"
  using assms by (simp add: trailing_args_def)

lemma source_type_args_plain: "\<forall>t\<in>set (source_type_args entry). plain_token t"
  by (simp add: source_type_args_def SourceFileType_def plain_token_def table_simps
      StartsWith_def StartsWithAny_def split: option.splits)

lemma no_dash_passes:
  assumes "char_at d 0 \<noteq> CHR ''-''"
  shows "\<not> StartsWithAny d kBlacklistMulti \<and> \<not> StartsWithAny d kBlacklist \<and>
         \<not> StartsWithAny d kPathArgs"
  using assms
  by (cases d) (simp_all add: table_simps StartsWith_def StartsWithAny_def char_at_def)

lemma args_loop_passes_normal:
  "\<forall>t\<in>set ps. \<not> StartsWithAny t kBlacklistMulti \<and> \<not> StartsWithAny t kBlacklist \<and>
       \<not> StartsWithAny t kPathArgs \<Longrightarrow>
   \<not> next_flag_is_path st \<Longrightarrow>
   args_loop pf e (ps @ xs) st c out = args_loop pf e xs st c (out @ ps)"
proof (induction ps arbitrary: out)
  case Nil
  then show ?case by simp
next
  case (Cons t ps)
  then show ?case by (simp add: args_loop_plain_normal)
qed

lemma takeWhile_last_holds:
  assumes "0 < length (takeWhile P xs)"
  shows "P (xs ! (length (takeWhile P xs) - 1))"
proof -
  let ?n = "length (takeWhile P xs) - 1"
  have n: "?n < length (takeWhile P xs)" using assms by simp
  then have "takeWhile P xs ! ?n \<in> set (takeWhile P xs)" by (rule nth_mem)
  then have "P (takeWhile P xs ! ?n)" by (rule set_takeWhileD [THEN conjunct2])
  then show ?thesis using takeWhile_nth [OF n] by simp
qed

lemma compiler_args_command:
  assumes "NormalizePathWithTestOptOut pf ''clang++'' \<noteq> fname"
  shows "\<exists>x. compiler_args entry (compiler_loop pf fname (args_raw entry) 0) = [x] \<and>
             is_command_token pf fname x"
proof (cases "0 < compiler_loop pf fname (args_raw entry) 0")
  case True
  then show ?thesis
    using takeWhile_last_holds [of "is_command_token pf fname" "args_raw entry"]
    by (simp add: compiler_args_def compiler_loop_0)
next
  case False
  then show ?thesis using assms
    by (simp add: compiler_args_def is_command_token_def char_at_def)
qed

lemma source_type_args_x:
  "SourceFileType (file entry) = Some t \<Longrightarrow> \<not> AnyStartsWith (args_raw entry) ''-x'' \<Longrightarrow>
   AnyStartsWith (source_type_args entry) ''-x''"
  by (simp add: source_type_args_def AnyStartsWith_def StartsWith_def)

lemma source_type_args_std:
  "SourceFileType (file entry) = Some t \<Longrightarrow> t = ''c'' \<or> t = ''c++'' \<Longrightarrow>
   \<not> AnyStartsWith (args_raw entry) ''-std='' \<Longrightarrow>
   AnyStartsWith (source_type_args entry) ''-std=''"
  by (auto simp: source_type_args_def AnyStartsWith_def StartsWith_def)

lemma source_type_args_guarded:
  assumes "\<And>t. SourceFileType (file entry) = Some t \<Longrightarrow>
             AnyStartsWith (args_raw entry) ''-x'' \<and>
             (t = ''c'' \<or> t = ''c++'' \<longrightarrow> AnyStartsWith (args_raw entry) ''-std='')"
  shows "source_type_args entry = []"
proof (cases "SourceFileType (file entry)")
  case None
  then show ?thesis by (simp add: source_type_args_def)
next
  case (Some t)
  then show ?thesis using assms [OF Some] by (auto simp: source_type_args_def)
qed

lemma rooted_platform_absolute_idempotent: "absolute_idempotent rooted_platform"
  by (simp add: absolute_idempotent_def rooted_platform_def NormalizePathWithTestOptOut_def
      char_at_def)

subsection \<open>Raw lists whose output a second run changes\<close>

text \<open>
  In the setting of the tests normalization puts \<open>&\<close> in front of every path, so a
  second run normalizes the value of \<open>--sysroot=\<close> once more. And an \<open>-x\<close> flag that a
  multi-token flag takes with it has switched off the injection of the language in the
  first run, but is not there to do so in the second.
\<close>

lemma rerun_renormalizes_sysroot:
  "GetCompilationEntryFromCompileCommandEntry test_platform test_config
     (test_entry [''clang'', ''--sysroot=sys'']) =
   Inr (\<lparr>filename = ''&file.cc'',
         args = [''clang'', ''-working-directory'', ''/dir/'', ''-xc++'', ''-std=c++14'',
                 ''--sysroot=&/dir//sys'', ''-resource-dir=/w/resource_dir/'',
                 ''-Wno-unknown-warning-option'', ''-fparse-all-comments''],
         is_inferred = False\<rparr>, test_config) \<and>
   GetCompilationEntryFromCompileCommandEntry test_platform test_config
     (test_entry [''clang'', ''-working-directory'', ''/dir/'', ''-xc++'', ''-std=c++14'',
                 ''--sysroot=&/dir//sys'', ''-resource-dir=/w/resource_dir/'',
                 ''-Wno-unknown-warning-option'', ''-fparse-all-comments'']) =
   Inr (\<lparr>filename = ''&file.cc'',
         args = [''clang'', ''-working-directory'', ''/dir/'', ''-xc++'', ''-std=c++14'',
                 ''--sysroot=&/dir//&/dir//sys'', ''-resource-dir=/w/resource_dir/'',
                 ''-Wno-unknown-warning-option'', ''-fparse-all-comments''],
         is_inferred = False\<rparr>, test_config)"
  by (simp add: classifier_eval)

lemma rerun_after_dropped_dialect_flag:
  "GetCompilationEntryFromCompileCommandEntry test_platform test_config
     (test_entry [''clang'', ''-o'', ''-xc'']) =
   Inr (\<lparr>filename = ''&file.cc'',
         args = [''clang'', ''-working-directory'', ''/dir/'', ''-std=c++14'',
                 ''-resource-dir=/w/resource_dir/'',
                 ''-Wno-unknown-warning-option'', ''-fparse-all-comments''],
         is_inferred = False\<rparr>, test_config) \<and>
   GetCompilationEntryFromCompileCommandEntry test_platform test_config
     (test_entry [''clang'', ''-working-directory'', ''/dir/'', ''-std=c++14'',
                 ''-resource-dir=/w/resource_dir/'',
                 ''-Wno-unknown-warning-option'', ''-fparse-all-comments'']) =
   Inr (\<lparr>filename = ''&file.cc'',
         args = [''clang'', ''-xc++'', ''-working-directory'', ''/dir/'', ''-std=c++14'',
                 ''-resource-dir=/w/resource_dir/'',
                 ''-Wno-unknown-warning-option'', ''-fparse-all-comments''],
         is_inferred = False\<rparr>, test_config)"
  by (simp add: classifier_eval)

section \<open>Claims on the classifier\<close>

text \<open>
  C5. The raw list \<open>buildproxy cc1\<close> for a C++ source file, with no extra flags: the
  output is \<open>cc1\<close>, the working-directory flag and the directory, \<open>-xc++\<close> and
  \<open>-std=c++14\<close>, then the resource directory, the warning suppression and the comment
  flag, in this order. The two tokens must not normalize to the source file, and the
  directory, which the three guards of the fixed flags also scan, must not start with
  one of these flags.
\<close>

theorem wrapper_stripping:
  assumes "SourceFileType (file entry) = Some ''c++''"
    and "args_raw entry = [''buildproxy'', ''cc1'']"
    and "extra_flags config = []"
    and "NormalizePathWithTestOptOut pf ''buildproxy'' \<noteq> NormalizePathWithTestOptOut pf (file entry)"
    and "NormalizePathWithTestOptOut pf ''cc1'' \<noteq> NormalizePathWithTestOptOut pf (file entry)"
    and "\<not> StartsWith (directory entry) ''-resource-dir''"
    and "\<not> StartsWith (directory entry) ''-Wno-unknown-warning-option''"
    and "\<not> StartsWith (directory entry) ''-fparse-all-comments''"
  shows "GetCompilationEntryFromCompileCommandEntry pf config entry =
     Inr (\<lparr>filename = NormalizePathWithTestOptOut pf (file entry),
           args = [''cc1'', ''-working-directory'', directory entry, ''-xc++'', ''-std=c++14'',
                   ''-resource-dir='' @ resource_dir config,
                   ''-Wno-unknown-warning-option'', ''-fparse-all-comments''],
           is_inferred = False\<rparr>, config)"
proof -
  have i: "compiler_loop pf (NormalizePathWithTestOptOut pf (file entry))
             [''buildproxy'', ''cc1''] 0 = 2"
    using assms(4,5)
    by (simp add: compiler_loop_0 is_command_token_def char_at_def)
  have c: "compiler_args entry 2 = [''cc1'']"
    by (simp add: compiler_args_def assms(2))
  have w: "working_directory_args entry = [''-working-directory'', directory entry]"
    by (simp add: working_directory_args_def assms(2) StartsWith_simps)
  have s: "source_type_args entry = [''-xc++'', ''-std=c++14'']"
    by (simp add: source_type_args_def assms(1,2) StartsWith_simps)
  have t: "trailing_args config [''cc1'', ''-working-directory'', directory entry, ''-xc++'', ''-std=c++14'']
      = [''cc1'', ''-working-directory'', directory entry, ''-xc++'', ''-std=c++14'',
                   ''-resource-dir='' @ resource_dir config,
                   ''-Wno-unknown-warning-option'', ''-fparse-all-comments'']"
    using assms(6,7,8)
    by (simp add: trailing_args_def assms(3) AnyStartsWith_def Let_def) (simp add: StartsWith_def)
  show ?thesis
    by (simp add: GetCompilationEntryFromCompileCommandEntry_def Let_def i c w s t assms(2)
        Entry_default_def)
qed

text \<open>
  The raw list \<open>buildproxy cc1\<close> in the setting of the tests.
\<close>

theorem wrapper_stripping_witness:
  "SourceFileType (file (test_entry [''buildproxy'', ''cc1''])) = Some ''c++'' \<and>
   args_raw (test_entry [''buildproxy'', ''cc1'']) = [''buildproxy'', ''cc1''] \<and>
   extra_flags test_config = [] \<and>
   NormalizePathWithTestOptOut test_platform ''buildproxy'' \<noteq>
     NormalizePathWithTestOptOut test_platform (file (test_entry [''buildproxy'', ''cc1''])) \<and>
   NormalizePathWithTestOptOut test_platform ''cc1'' \<noteq>
     NormalizePathWithTestOptOut test_platform (file (test_entry [''buildproxy'', ''cc1''])) \<and>
   \<not> StartsWith (directory (test_entry [''buildproxy'', ''cc1''])) ''-resource-dir'' \<and>
   \<not> StartsWith (directory (test_entry [''buildproxy'', ''cc1'']))
       ''-Wno-unknown-warning-option'' \<and>
   \<not> StartsWith (directory (test_entry [''buildproxy'', ''cc1''])) ''-fparse-all-comments'' \<and>
   GetCompilationEntryFromCompileCommandEntry test_platform test_config
     (test_entry [''buildproxy'', ''cc1'']) =
   Inr (\<lparr>filename = ''&file.cc'',
         args = [''cc1'', ''-working-directory'', ''/dir/'', ''-xc++'', ''-std=c++14'',
                 ''-resource-dir=/w/resource_dir/'',
                 ''-Wno-unknown-warning-option'', ''-fparse-all-comments''],
         is_inferred = False\<rparr>, test_config)"
proof -
  let ?e = "test_entry [''buildproxy'', ''cc1'']"
  have 1: "SourceFileType (file ?e) = Some ''c++''"
    by (simp add: test_entry_def SourceFileType_def StartsWith_simps)
  have 2: "args_raw ?e = [''buildproxy'', ''cc1'']" by (simp add: test_entry_def)
  have 3: "extra_flags test_config = []" by (simp add: test_config_def)
  have 4: "NormalizePathWithTestOptOut test_platform ''buildproxy'' \<noteq>
     NormalizePathWithTestOptOut test_platform (file ?e)"
    by (simp add: NormalizePathWithTestOptOut_def test_platform_def test_entry_def)
  have 5: "NormalizePathWithTestOptOut test_platform ''cc1'' \<noteq>
     NormalizePathWithTestOptOut test_platform (file ?e)"
    by (simp add: NormalizePathWithTestOptOut_def test_platform_def test_entry_def)
  have 6: "\<not> StartsWith (directory ?e) ''-resource-dir''"
    "\<not> StartsWith (directory ?e) ''-Wno-unknown-warning-option''"
    "\<not> StartsWith (directory ?e) ''-fparse-all-comments''"
    by (simp_all add: test_entry_def StartsWith_def)
  have "GetCompilationEntryFromCompileCommandEntry test_platform test_config ?e =
   Inr (\<lparr>filename = ''&file.cc'',
         args = [''cc1'', ''-working-directory'', ''/dir/'', ''-xc++'', ''-std=c++14'',
                 ''-resource-dir=/w/resource_dir/'',
                 ''-Wno-unknown-warning-option'', ''-fparse-all-comments''],
         is_inferred = False\<rparr>, test_config)"
    using wrapper_stripping [OF 1 2 3 4 5 6]
    by (simp add: NormalizePathWithTestOptOut_def test_platform_def test_entry_def
        test_config_def)
  then show ?thesis using 1 2 3 4 5 6 by blast
qed

text \<open>
  C6. Running the classifier again on the args it produced, for the same directory and
  source file and with the accumulator as the first run left it, gives the same entry,
  provided that the accumulator holds no extra flags (they are appended on every run),
  the raw list has no working-directory flag of its own (so that the injected one ends
  the scan for the compiler), the directory does not start with \<open>-\<close>, every \<open>-x\<close> and
  \<open>-std=\<close> flag of the raw list that the guards saw has reached the output, the
  normalization is absolute and idempotent or no token starts with \<open>--sysroot=\<close>, and
  the placeholder \<open>clang++\<close> does not normalize to the source file.
\<close>

theorem classifier_idempotent:
  assumes run1: "GetCompilationEntryFromCompileCommandEntry pf config entry = Inr (e1, config1)"
    and ex: "extra_flags config = []"
    and wd: "\<not> AnyStartsWith (args_raw entry) ''-working-directory''"
    and dir: "char_at (directory entry) 0 \<noteq> CHR ''-''"
    and x: "AnyStartsWith (args_raw entry) ''-x'' \<longrightarrow> AnyStartsWith (args e1) ''-x''"
    and std: "AnyStartsWith (args_raw entry) ''-std='' \<longrightarrow> AnyStartsWith (args e1) ''-std=''"
    and N: "absolute_idempotent pf \<or> \<not> AnyStartsWith (args_raw entry) ''--sysroot=''"
    and cl: "NormalizePathWithTestOptOut pf ''clang++'' \<noteq>
               NormalizePathWithTestOptOut pf (file entry)"
  shows "\<exists>config2. GetCompilationEntryFromCompileCommandEntry pf config1
                      (entry\<lparr>args_raw := args e1\<rparr>) = Inr (e1, config2)"
proof -
  let ?fname = "NormalizePathWithTestOptOut pf (file entry)"
  let ?raw = "args_raw entry"
  let ?i = "compiler_loop pf ?fname ?raw 0"
  let ?W = "[''-working-directory'', directory entry]"
  let ?L = "source_type_args entry"
  obtain x where A: "compiler_args entry ?i = [x]" and cmd: "is_command_token pf ?fname x"
    using compiler_args_command [OF cl] by blast
  have W: "working_directory_args entry = ?W"
    using wd by (simp add: working_directory_args_def)
  obtain out1 where loop1: "args_loop pf entry (drop ?i ?raw) FlagState_init config
        ([x] @ ?W @ ?L) = Inr (config1, out1)"
    and e1: "e1 = Entry_default\<lparr>filename := ?fname, args := trailing_args config1 out1\<rparr>"
    using run1
    by (auto simp: GetCompilationEntryFromCompileCommandEntry_def Let_def A W
        split: sum.splits)
  have N': "absolute_idempotent pf \<or>
      (\<forall>a\<in>set (drop ?i ?raw). \<not> StartsWithAny a kNormalizePathArgs)"
    using N
    by (auto simp: AnyStartsWith_def StartsWithAny_def kNormalizePathArgs_def list_ex_iff
        dest: in_set_dropD)
  obtain B where out1: "out1 = ([x] @ ?W @ ?L) @ B"
    and refeed: "\<And>ys cA outA. \<forall>t\<in>set ys. plain_token t \<Longrightarrow>
        \<exists>cB. args_loop pf entry (B @ ys) FlagState_init cA outA = Inr (cB, outA @ B @ ys)"
    using args_loop_refeed [OF N' loop1] by blast
  have ex1: "extra_flags config1 = []"
    using args_loop_extra_flags [OF loop1] ex by simp
  obtain T where T: "trailing_args config1 out1 = out1 @ T" "\<forall>t\<in>set T. plain_token t"
    and guards: "AnyStartsWith (out1 @ T) ''-resource-dir''"
      "AnyStartsWith (out1 @ T) ''-Wno-unknown-warning-option''"
      "AnyStartsWith (out1 @ T) ''-fparse-all-comments''"
    using trailing_args_shape [OF ex1, of out1] by blast
  define R where "R = out1 @ T"
  have R: "R = x # ''-working-directory'' # directory entry # ?L @ B @ T"
    by (simp add: R_def out1)
  have args1: "args e1 = R" by (simp add: e1 T(1) R_def)
  let ?e2 = "entry\<lparr>args_raw := R\<rparr>"
  have i2: "compiler_loop pf ?fname R 0 = Suc 0"
    using cmd by (simp add: R compiler_loop_0 is_command_token_def [of pf ?fname "''-working-directory''"]
        char_at_def)
  have A2: "compiler_args ?e2 (Suc 0) = [x]"
    by (simp add: compiler_args_def R)
  have W2: "working_directory_args ?e2 = []"
    by (simp add: working_directory_args_def R AnyStartsWith_Cons StartsWith_def)
  have L2: "source_type_args ?e2 = []"
  proof (rule source_type_args_guarded)
    fix t
    assume t: "SourceFileType (file ?e2) = Some t"
    then have t': "SourceFileType (file entry) = Some t" by simp
    have Lin: "AnyStartsWith ?L s \<Longrightarrow> AnyStartsWith R s" for s
      by (simp add: R AnyStartsWith_Cons AnyStartsWith_append)
    have "AnyStartsWith R ''-x''"
      using x source_type_args_x [OF t'] Lin args1 by blast
    moreover have "t = ''c'' \<or> t = ''c++'' \<longrightarrow> AnyStartsWith R ''-std=''"
      using std source_type_args_std [OF t'] Lin args1 by blast
    ultimately show "AnyStartsWith (args_raw ?e2) ''-x'' \<and>
        (t = ''c'' \<or> t = ''c++'' \<longrightarrow> AnyStartsWith (args_raw ?e2) ''-std='')"
      by simp
  qed
  have n: "\<not> next_flag_is_path FlagState_init" by (simp add: FlagState_init_def)
  have pass: "\<forall>t\<in>set (?W @ ?L). \<not> StartsWithAny t kBlacklistMulti \<and>
      \<not> StartsWithAny t kBlacklist \<and> \<not> StartsWithAny t kPathArgs"
    using no_dash_passes [OF dir] plain_fixed(3) source_type_args_plain [of entry]
    by (auto simp: plain_token_def)
  obtain cB where loop2: "args_loop pf entry (B @ T) FlagState_init config1 ([x] @ ?W @ ?L)
      = Inr (cB, ([x] @ ?W @ ?L) @ B @ T)"
    using refeed [OF T(2)] by blast
  have "args_loop pf ?e2 (drop (Suc 0) R) FlagState_init config1 [x] =
        args_loop pf entry ((?W @ ?L) @ B @ T) FlagState_init config1 [x]"
    by (subst args_loop_dir_cong [of ?e2 entry]) (simp_all add: R)
  also have "\<dots> = args_loop pf entry (B @ T) FlagState_init config1 ([x] @ ?W @ ?L)"
    by (rule args_loop_passes_normal [OF pass n])
  also have "\<dots> = Inr (cB, R)"
    using loop2 by (simp add: R)
  finally have loop2': "args_loop pf ?e2 (drop (Suc 0) R) FlagState_init config1 [x] = Inr (cB, R)" .
  have exB: "extra_flags cB = []"
    using args_loop_extra_flags [OF loop2] ex1 by simp
  have tr: "trailing_args cB R = R"
    using trailing_args_fixed [OF exB] guards by (simp add: R_def)
  have "GetCompilationEntryFromCompileCommandEntry pf config1 ?e2 = Inr (e1, cB)"
    by (simp add: GetCompilationEntryFromCompileCommandEntry_def Let_def i2 A2 W2 L2 loop2' tr
        e1 T(1) R_def [symmetric])
  then show ?thesis unfolding args1 by blast
qed

text \<open>
  A compile command of the usual shape in the setting of the tests, and one with
  \<open>--sysroot=\<close> under a normalization that is absolute and idempotent.
\<close>

theorem classifier_idempotent_witness:
  "(GetCompilationEntryFromCompileCommandEntry test_platform test_config
     (test_entry [''clang'', ''-c'', ''-Iinc'', ''-o'', ''file.o'', ''file.cc'']) =
   Inr (\<lparr>filename = ''&file.cc'',
         args = [''clang'', ''-working-directory'', ''/dir/'', ''-xc++'', ''-std=c++14'',
                 ''-Iinc'', ''file.cc'', ''-resource-dir=/w/resource_dir/'',
                 ''-Wno-unknown-warning-option'', ''-fparse-all-comments''],
         is_inferred = False\<rparr>,
        test_config\<lparr>angle_dirs := {''&/dir//inc''}\<rparr>) \<and>
   extra_flags test_config = [] \<and>
   \<not> AnyStartsWith [''clang'', ''-c'', ''-Iinc'', ''-o'', ''file.o'', ''file.cc'']
       ''-working-directory'' \<and>
   char_at ''/dir/'' 0 \<noteq> CHR ''-'' \<and>
   \<not> AnyStartsWith [''clang'', ''-c'', ''-Iinc'', ''-o'', ''file.o'', ''file.cc''] ''-x'' \<and>
   \<not> AnyStartsWith [''clang'', ''-c'', ''-Iinc'', ''-o'', ''file.o'', ''file.cc''] ''-std='' \<and>
   \<not> AnyStartsWith [''clang'', ''-c'', ''-Iinc'', ''-o'', ''file.o'', ''file.cc'']
       ''--sysroot='' \<and>
   NormalizePathWithTestOptOut test_platform ''clang++'' \<noteq>
     NormalizePathWithTestOptOut test_platform ''file.cc'' \<and>
   (\<exists>config2.
      GetCompilationEntryFromCompileCommandEntry test_platform
        (test_config\<lparr>angle_dirs := {''&/dir//inc''}\<rparr>)
        (test_entry [''clang'', ''-working-directory'', ''/dir/'', ''-xc++'', ''-std=c++14'',
                 ''-Iinc'', ''file.cc'', ''-resource-dir=/w/resource_dir/'',
                 ''-Wno-unknown-warning-option'', ''-fparse-all-comments'']) =
      Inr (\<lparr>filename = ''&file.cc'',
            args = [''clang'', ''-working-directory'', ''/dir/'', ''-xc++'', ''-std=c++14'',
                    ''-Iinc'', ''file.cc'', ''-resource-dir=/w/resource_dir/'',
                    ''-Wno-unknown-warning-option'', ''-fparse-all-comments''],
            is_inferred = False\<rparr>, config2))) \<and>
   (GetCompilationEntryFromCompileCommandEntry rooted_platform test_config
     (test_entry [''clang'', ''--sysroot=sys'', ''-c'']) =
   Inr (\<lparr>filename = ''/file.cc'',
         args = [''clang'', ''-working-directory'', ''/dir/'', ''-xc++'', ''-std=c++14'',
                 ''--sysroot=/dir//sys'', ''-resource-dir=/w/resource_dir/'',
                 ''-Wno-unknown-warning-option'', ''-fparse-all-comments''],
         is_inferred = False\<rparr>, test_config) \<and>
   absolute_idempotent rooted_platform \<and>
   (\<exists>config2.
      GetCompilationEntryFromCompileCommandEntry rooted_platform test_config
        (test_entry [''clang'', ''-working-directory'', ''/dir/'', ''-xc++'', ''-std=c++14'',
                 ''--sysroot=/dir//sys'', ''-resource-dir=/w/resource_dir/'',
                 ''-Wno-unknown-warning-option'', ''-fparse-all-comments'']) =
      Inr (\<lparr>filename = ''/file.cc'',
            args = [''clang'', ''-working-directory'', ''/dir/'', ''-xc++'', ''-std=c++14'',
                 ''--sysroot=/dir//sys'', ''-resource-dir=/w/resource_dir/'',
                 ''-Wno-unknown-warning-option'', ''-fparse-all-comments''],
            is_inferred = False\<rparr>, config2)))"
proof -
  have A: "GetCompilationEntryFromCompileCommandEntry test_platform test_config
     (test_entry [''clang'', ''-c'', ''-Iinc'', ''-o'', ''file.o'', ''file.cc'']) =
   Inr (\<lparr>filename = ''&file.cc'',
         args = [''clang'', ''-working-directory'', ''/dir/'', ''-xc++'', ''-std=c++14'',
                 ''-Iinc'', ''file.cc'', ''-resource-dir=/w/resource_dir/'',
                 ''-Wno-unknown-warning-option'', ''-fparse-all-comments''],
         is_inferred = False\<rparr>,
        test_config\<lparr>angle_dirs := {''&/dir//inc''}\<rparr>) \<and>
   extra_flags test_config = [] \<and>
   \<not> AnyStartsWith [''clang'', ''-c'', ''-Iinc'', ''-o'', ''file.o'', ''file.cc'']
       ''-working-directory'' \<and>
   char_at ''/dir/'' 0 \<noteq> CHR ''-'' \<and>
   \<not> AnyStartsWith [''clang'', ''-c'', ''-Iinc'', ''-o'', ''file.o'', ''file.cc''] ''-x'' \<and>
   \<not> AnyStartsWith [''clang'', ''-c'', ''-Iinc'', ''-o'', ''file.o'', ''file.cc''] ''-std='' \<and>
   \<not> AnyStartsWith [''clang'', ''-c'', ''-Iinc'', ''-o'', ''file.o'', ''file.cc'']
       ''--sysroot='' \<and>
   NormalizePathWithTestOptOut test_platform ''clang++'' \<noteq>
     NormalizePathWithTestOptOut test_platform ''file.cc'' \<and>
   (\<exists>config2.
      GetCompilationEntryFromCompileCommandEntry test_platform
        (test_config\<lparr>angle_dirs := {''&/dir//inc''}\<rparr>)
        (test_entry [''clang'', ''-working-directory'', ''/dir/'', ''-xc++'', ''-std=c++14'',
                 ''-Iinc'', ''file.cc'', ''-resource-dir=/w/resource_dir/'',
                 ''-Wno-unknown-warning-option'', ''-fparse-all-comments'']) =
      Inr (\<lparr>filename = ''&file.cc'',
            args = [''clang'', ''-working-directory'', ''/dir/'', ''-xc++'', ''-std=c++14'',
                    ''-Iinc'', ''file.cc'', ''-resource-dir=/w/resource_dir/'',
                    ''-Wno-unknown-warning-option'', ''-fparse-all-comments''],
            is_inferred = False\<rparr>, config2))"
  proof -
    let ?raw = "[''clang'', ''-c'', ''-Iinc'', ''-o'', ''file.o'', ''file.cc'']"
    let ?e1 = "\<lparr>filename = ''&file.cc'',
           args = [''clang'', ''-working-directory'', ''/dir/'', ''-xc++'', ''-std=c++14'',
                   ''-Iinc'', ''file.cc'', ''-resource-dir=/w/resource_dir/'',
                   ''-Wno-unknown-warning-option'', ''-fparse-all-comments''],
           is_inferred = False\<rparr>"
    have 1: "GetCompilationEntryFromCompileCommandEntry test_platform test_config (test_entry ?raw) =
        Inr (?e1, test_config\<lparr>angle_dirs := {''&/dir//inc''}\<rparr>)"
      by (simp add: classifier_eval)
    have 2: "extra_flags test_config = []" by (simp add: test_config_def)
    have 3: "\<not> AnyStartsWith ?raw ''-working-directory''" "\<not> AnyStartsWith ?raw ''-x''"
      "\<not> AnyStartsWith ?raw ''-std=''" "\<not> AnyStartsWith ?raw ''--sysroot=''"
      by (simp_all add: StartsWith_simps)
    have 4: "char_at ''/dir/'' 0 \<noteq> CHR ''-''" by (simp add: char_at_def)
    have 5: "NormalizePathWithTestOptOut test_platform ''clang++'' \<noteq>
       NormalizePathWithTestOptOut test_platform ''file.cc''"
      by (simp add: NormalizePathWithTestOptOut_def test_platform_def)
    have "\<exists>config2. GetCompilationEntryFromCompileCommandEntry test_platform
          (test_config\<lparr>angle_dirs := {''&/dir//inc''}\<rparr>)
          ((test_entry ?raw)\<lparr>args_raw := args ?e1\<rparr>) = Inr (?e1, config2)"
      using classifier_idempotent [OF 1 2] 3 4 5 by (simp add: test_entry_def)
    then show ?thesis using 1 2 3 4 5 by (simp add: test_entry_def)
  qed
  have B: "GetCompilationEntryFromCompileCommandEntry rooted_platform test_config
     (test_entry [''clang'', ''--sysroot=sys'', ''-c'']) =
   Inr (\<lparr>filename = ''/file.cc'',
         args = [''clang'', ''-working-directory'', ''/dir/'', ''-xc++'', ''-std=c++14'',
                 ''--sysroot=/dir//sys'', ''-resource-dir=/w/resource_dir/'',
                 ''-Wno-unknown-warning-option'', ''-fparse-all-comments''],
         is_inferred = False\<rparr>, test_config) \<and>
   absolute_idempotent rooted_platform \<and>
   (\<exists>config2.
      GetCompilationEntryFromCompileCommandEntry rooted_platform test_config
        (test_entry [''clang'', ''-working-directory'', ''/dir/'', ''-xc++'', ''-std=c++14'',
                 ''--sysroot=/dir//sys'', ''-resource-dir=/w/resource_dir/'',
                 ''-Wno-unknown-warning-option'', ''-fparse-all-comments'']) =
      Inr (\<lparr>filename = ''/file.cc'',
            args = [''clang'', ''-working-directory'', ''/dir/'', ''-xc++'', ''-std=c++14'',
                 ''--sysroot=/dir//sys'', ''-resource-dir=/w/resource_dir/'',
                 ''-Wno-unknown-warning-option'', ''-fparse-all-comments''],
            is_inferred = False\<rparr>, config2))"
  proof -
    let ?raw = "[''clang'', ''--sysroot=sys'', ''-c'']"
    let ?e1 = "\<lparr>filename = ''/file.cc'',
           args = [''clang'', ''-working-directory'', ''/dir/'', ''-xc++'', ''-std=c++14'',
                   ''--sysroot=/dir//sys'', ''-resource-dir=/w/resource_dir/'',
                   ''-Wno-unknown-warning-option'', ''-fparse-all-comments''],
           is_inferred = False\<rparr>"
    have 1: "GetCompilationEntryFromCompileCommandEntry rooted_platform test_config (test_entry ?raw) =
        Inr (?e1, test_config)"
      by (simp add: classifier_eval rooted_platform_def)
    have 2: "extra_flags test_config = []" by (simp add: test_config_def)
    have 3: "\<not> AnyStartsWith ?raw ''-working-directory''" "\<not> AnyStartsWith ?raw ''-x''"
      "\<not> AnyStartsWith ?raw ''-std=''"
      by (simp_all add: StartsWith_simps)
    have 4: "char_at ''/dir/'' 0 \<noteq> CHR ''-''" by (simp add: char_at_def)
    have 5: "NormalizePathWithTestOptOut rooted_platform ''clang++'' \<noteq>
       NormalizePathWithTestOptOut rooted_platform ''file.cc''"
      by (simp add: NormalizePathWithTestOptOut_def rooted_platform_def char_at_def)
    have "\<exists>config2. GetCompilationEntryFromCompileCommandEntry rooted_platform test_config
          ((test_entry ?raw)\<lparr>args_raw := args ?e1\<rparr>) = Inr (?e1, config2)"
      using classifier_idempotent [OF 1 2] 3 4 5 rooted_platform_absolute_idempotent
      by (simp add: test_entry_def)
    then show ?thesis using 1 rooted_platform_absolute_idempotent by (simp add: test_entry_def)
  qed
  show ?thesis using A B by (rule conjI)
qed

text \<open>
  With the extra flag \<open>-DEXTRA\<close> in the accumulator the second run appends it once
  more: its args are not those of the first run.
\<close>

theorem rerun_repeats_extra_flags_counterexample:
  "GetCompilationEntryFromCompileCommandEntry test_platform
     (test_config\<lparr>extra_flags := [''-DEXTRA'']\<rparr>) (test_entry [''clang'']) =
   Inr (\<lparr>filename = ''&file.cc'',
         args = [''clang'', ''-working-directory'', ''/dir/'', ''-xc++'', ''-std=c++14'',
                 ''-DEXTRA'', ''-resource-dir=/w/resource_dir/'',
                 ''-Wno-unknown-warning-option'', ''-fparse-all-comments''],
         is_inferred = False\<rparr>,
        test_config\<lparr>extra_flags := [''-DEXTRA'']\<rparr>) \<and>
   GetCompilationEntryFromCompileCommandEntry test_platform
     (test_config\<lparr>extra_flags := [''-DEXTRA'']\<rparr>)
     (test_entry [''clang'', ''-working-directory'', ''/dir/'', ''-xc++'', ''-std=c++14'',
                 ''-DEXTRA'', ''-resource-dir=/w/resource_dir/'',
                 ''-Wno-unknown-warning-option'', ''-fparse-all-comments'']) =
   Inr (\<lparr>filename = ''&file.cc'',
         args = [''clang'', ''-working-directory'', ''/dir/'', ''-xc++'', ''-std=c++14'',
                 ''-DEXTRA'', ''-resource-dir=/w/resource_dir/'',
                 ''-Wno-unknown-warning-option'', ''-fparse-all-comments'', ''-DEXTRA''],
         is_inferred = False\<rparr>,
        test_config\<lparr>extra_flags := [''-DEXTRA'']\<rparr>)"
  by (simp add: classifier_eval)

text \<open>
  C7. For every working directory and every non-empty path value \<open>foo\<close>, relative
  ones among them, the split spelling \<open>-I foo\<close> and the fused spelling \<open>-Ifoo\<close>
  are both classified without failure and leave the same angle-style set: the set of
  the accumulator with the one absolutized path inserted. The quote-style set is not
  touched.
\<close>

theorem split_fused_equivalence:
  assumes "foo \<noteq> []"
  shows "\<exists>e1 c1 e2 c2.
     GetCompilationEntryFromCompileCommandEntry pf config (entry\<lparr>args_raw := [''-I'', foo]\<rparr>)
       = Inr (e1, c1) \<and>
     GetCompilationEntryFromCompileCommandEntry pf config (entry\<lparr>args_raw := [''-I'' @ foo]\<rparr>)
       = Inr (e2, c2) \<and>
     angle_dirs c1 =
       insert (NormalizePathWithTestOptOut pf
                (if char_at foo 0 = CHR ''/'' \<or> directory entry = [] then foo
                 else directory entry @ ''/'' @ foo)) (angle_dirs config) \<and>
     angle_dirs c2 = angle_dirs c1 \<and>
     quote_dirs c1 = quote_dirs config \<and> quote_dirs c2 = quote_dirs config"
proof -
  have 1: "compiler_loop pf fname [''-I'', foo] 0 = 0" for fname
    by (simp add: compiler_loop_0 is_command_token_def char_at_def)
  have 2: "compiler_loop pf fname [CHR ''-'' # CHR ''I'' # foo] 0 = 0" for fname
    by (simp add: compiler_loop_0 is_command_token_def char_at_def)
  show ?thesis
    using assms
    by (simp add: GetCompilationEntryFromCompileCommandEntry_def Let_def 1 2
        args_loop_split_I args_loop_fused_I)
qed

text \<open>
  The two spellings of \<open>foo\<close> against the directory \<open>/dir/\<close>.
\<close>

theorem split_fused_equivalence_witness:
  "''foo'' \<noteq> [] \<and>
   (\<exists>e1 c1 e2 c2.
      GetCompilationEntryFromCompileCommandEntry test_platform test_config
        (test_entry [''-I'', ''foo'']) = Inr (e1, c1) \<and>
      GetCompilationEntryFromCompileCommandEntry test_platform test_config
        (test_entry [''-Ifoo'']) = Inr (e2, c2) \<and>
      angle_dirs c1 = {''&/dir//foo''} \<and> angle_dirs c2 = {''&/dir//foo''})"
  using split_fused_equivalence [of "''foo''" test_platform test_config "test_entry []"]
  by (simp add: test_entry_def test_platform_def test_config_def NormalizePathWithTestOptOut_def
      char_at_def) metis

text \<open>
  C8. A multi-token blacklisted flag that the argument loop meets outside a path value
  is dropped together with the token that follows it: the classifier answers as if the
  two tokens were not in the raw list. The raw list is \<open>pre\<close>, the flag, its value and
  \<open>rest\<close>. The scan for the compiler ends inside \<open>pre\<close>, and the tokens of \<open>pre\<close> after
  the compiler are consumed exactly, so that the flag is neither the value of a split
  path flag nor the token left out after another multi-token flag. The dropped value
  must not look like a working-directory, \<open>-x\<close> or \<open>-std=\<close> flag, which the guards of
  the injected flags would still see.
\<close>

theorem multi_token_flag_dropped:
  assumes "flag \<in> set kBlacklistMulti"
    and "compiler_loop pf (NormalizePathWithTestOptOut pf (file entry)) (pre @ rest) 0
           \<le> length pre"
    and "consumed_exactly
           (drop (compiler_loop pf (NormalizePathWithTestOptOut pf (file entry)) (pre @ rest) 0)
              pre)"
    and "\<not> StartsWith val ''-working-directory''"
    and "\<not> StartsWith val ''-x''"
    and "\<not> StartsWith val ''-std=''"
  shows "GetCompilationEntryFromCompileCommandEntry pf config
           (entry\<lparr>args_raw := pre @ flag # val # rest\<rparr>) =
         GetCompilationEntryFromCompileCommandEntry pf config (entry\<lparr>args_raw := pre @ rest\<rparr>)"
  using classifier_drop_pair [OF StartsWithAny_mem [OF assms(1) StartsWith_refl] assms(2-6)] .

text \<open>
  \<open>-MF x.d\<close> between \<open>-DNDEBUG\<close> and \<open>-O2\<close>.
\<close>

theorem multi_token_flag_dropped_witness:
  "''-MF'' \<in> set kBlacklistMulti \<and>
   compiler_loop test_platform (NormalizePathWithTestOptOut test_platform (file (test_entry [])))
     ([''clang'', ''-DNDEBUG''] @ [''-O2'']) 0 \<le> length [''clang'', ''-DNDEBUG''] \<and>
   consumed_exactly
     (drop (compiler_loop test_platform
              (NormalizePathWithTestOptOut test_platform (file (test_entry [])))
              ([''clang'', ''-DNDEBUG''] @ [''-O2'']) 0)
        [''clang'', ''-DNDEBUG'']) \<and>
   \<not> StartsWith ''x.d'' ''-working-directory'' \<and> \<not> StartsWith ''x.d'' ''-x'' \<and>
   \<not> StartsWith ''x.d'' ''-std='' \<and>
   GetCompilationEntryFromCompileCommandEntry test_platform test_config
     (test_entry [''clang'', ''-DNDEBUG'', ''-MF'', ''x.d'', ''-O2'']) =
   Inr (\<lparr>filename = ''&file.cc'',
         args = [''clang'', ''-working-directory'', ''/dir/'', ''-xc++'', ''-std=c++14'',
                 ''-DNDEBUG'', ''-O2'', ''-resource-dir=/w/resource_dir/'',
                 ''-Wno-unknown-warning-option'', ''-fparse-all-comments''],
         is_inferred = False\<rparr>, test_config)"
proof -
  let ?i = "compiler_loop test_platform
              (NormalizePathWithTestOptOut test_platform (file (test_entry [])))
              ([''clang'', ''-DNDEBUG''] @ [''-O2'']) 0"
  have 1: "''-MF'' \<in> set kBlacklistMulti" by (simp add: kBlacklistMulti_def)
  have i: "?i = 1"
    by (simp add: compiler_loop_0 is_command_token_def char_at_def
        NormalizePathWithTestOptOut_def test_platform_def test_entry_def)
  have 2: "?i \<le> length [''clang'', ''-DNDEBUG'']" unfolding i by simp
  have 3: "consumed_exactly (drop ?i [''clang'', ''-DNDEBUG''])"
    unfolding i by (simp add: StartsWith_simps table_simps)
  have 4: "\<not> StartsWith ''x.d'' ''-working-directory''" "\<not> StartsWith ''x.d'' ''-x''"
    "\<not> StartsWith ''x.d'' ''-std=''"
    by (simp_all add: StartsWith_def)
  have "GetCompilationEntryFromCompileCommandEntry test_platform test_config
          (test_entry [''clang'', ''-DNDEBUG'', ''-MF'', ''x.d'', ''-O2'']) =
        GetCompilationEntryFromCompileCommandEntry test_platform test_config
          (test_entry [''clang'', ''-DNDEBUG'', ''-O2''])"
    using multi_token_flag_dropped [OF 1 2 3 4, of test_config] by (simp add: test_entry_def)
  also have "\<dots> = Inr (\<lparr>filename = ''&file.cc'',
         args = [''clang'', ''-working-directory'', ''/dir/'', ''-xc++'', ''-std=c++14'',
                 ''-DNDEBUG'', ''-O2'', ''-resource-dir=/w/resource_dir/'',
                 ''-Wno-unknown-warning-option'', ''-fparse-all-comments''],
         is_inferred = False\<rparr>, test_config)"
    by (simp add: classifier_eval)
  finally show ?thesis using 1 2 3 4 by blast
qed

text \<open>
  A raw list with \<open>-MF\<close> followed by \<open>x.d\<close> whose output holds \<open>x.d\<close>: the fused
  \<open>-ofoo.o\<close> starts with the multi-token flag \<open>-o\<close> and takes \<open>-MF\<close> with it, so that
  \<open>x.d\<close> is an ordinary token.
\<close>

theorem multi_token_value_kept_counterexample:
  "GetCompilationEntryFromCompileCommandEntry test_platform test_config
     (test_entry [''clang'', ''-ofoo.o'', ''-MF'', ''x.d'']) =
   Inr (\<lparr>filename = ''&file.cc'',
         args = [''clang'', ''-working-directory'', ''/dir/'', ''-xc++'', ''-std=c++14'',
                 ''x.d'', ''-resource-dir=/w/resource_dir/'',
                 ''-Wno-unknown-warning-option'', ''-fparse-all-comments''],
         is_inferred = False\<rparr>, test_config)"
  by (simp add: classifier_eval)

text \<open>
  C9. An empty token right after a split path flag fails the assertion of
  \<open>cleanup_maybe_relative_path\<close> whenever the argument loop meets the flag outside a
  path value: the raw list is \<open>pre\<close>, the flag, the empty token and \<open>rest\<close>, and the
  tokens of \<open>pre\<close> after the compiler are consumed exactly, so that the flag is neither
  the value of a split path flag nor the token left out after a multi-token flag. When
  no token that follows a token equal to a path flag is empty, the classifier returns
  an entry: neither assertion can fail.
\<close>

theorem empty_path_value_assertion:
  "(flag \<in> set kPathArgs \<and>
    consumed_exactly
      (drop (compiler_loop pf (NormalizePathWithTestOptOut pf (file entry)) pre 0) pre)
    \<longrightarrow> GetCompilationEntryFromCompileCommandEntry pf config
          (entry\<lparr>args_raw := pre @ flag # [] # rest\<rparr>) = Inl AssertionFailed) \<and>
   (path_values_nonempty (args_raw entry)
    \<longrightarrow> (\<exists>r. GetCompilationEntryFromCompileCommandEntry pf config entry = Inr r))"
  using classifier_empty_path_value [of flag pf entry pre config rest]
    classifier_no_failure [of entry pf config]
  by blast

text \<open>
  \<open>-isystem\<close> followed by the empty token, and by \<open>inc\<close>.
\<close>

theorem empty_path_value_assertion_witness:
  "''-isystem'' \<in> set kPathArgs \<and>
   consumed_exactly
     (drop (compiler_loop test_platform
              (NormalizePathWithTestOptOut test_platform (file (test_entry []))) [''clang''] 0)
        [''clang'']) \<and>
   GetCompilationEntryFromCompileCommandEntry test_platform test_config
     (test_entry [''clang'', ''-isystem'', [], ''-O2'']) = Inl AssertionFailed \<and>
   path_values_nonempty (args_raw (test_entry [''clang'', ''-isystem'', ''inc'', ''-O2''])) \<and>
   (\<exists>r. GetCompilationEntryFromCompileCommandEntry test_platform test_config
          (test_entry [''clang'', ''-isystem'', ''inc'', ''-O2'']) = Inr r)"
proof -
  have 1: "''-isystem'' \<in> set kPathArgs" by (simp add: kPathArgs_def)
  have i: "compiler_loop test_platform
              (NormalizePathWithTestOptOut test_platform (file (test_entry []))) [''clang''] 0 = 1"
    by (simp add: compiler_loop_0 is_command_token_def char_at_def
        NormalizePathWithTestOptOut_def test_platform_def test_entry_def)
  have 2: "consumed_exactly
     (drop (compiler_loop test_platform
              (NormalizePathWithTestOptOut test_platform (file (test_entry []))) [''clang''] 0)
        [''clang''])"
    unfolding i by simp
  have 3: "path_values_nonempty (args_raw (test_entry [''clang'', ''-isystem'', ''inc'', ''-O2'']))"
    by (simp add: test_entry_def kPathArgs_def)
  have "GetCompilationEntryFromCompileCommandEntry test_platform test_config
     (test_entry [''clang'', ''-isystem'', [], ''-O2'']) = Inl AssertionFailed"
    using empty_path_value_assertion
      [of "''-isystem''" test_platform "test_entry []" "[''clang'']" test_config "[''-O2'']"] 1 2
    by (simp add: test_entry_def)
  moreover have "\<exists>r. GetCompilationEntryFromCompileCommandEntry test_platform test_config
          (test_entry [''clang'', ''-isystem'', ''inc'', ''-O2'']) = Inr r"
    using empty_path_value_assertion
      [of _ test_platform _ _ test_config _] 3
    by blast
  ultimately show ?thesis using 1 2 3 by blast
qed

text \<open>
  An empty token right after \<open>-isystem\<close> that fails no assertion: \<open>-ofoo.o\<close> starts with
  the multi-token flag \<open>-o\<close> and takes \<open>-isystem\<close> with it, so that the empty token is
  an ordinary token and is copied to the output.
\<close>

theorem empty_path_value_skipped_counterexample:
  "GetCompilationEntryFromCompileCommandEntry test_platform test_config
     (test_entry [''clang'', ''-ofoo.o'', ''-isystem'', [], ''-O2'']) =
   Inr (\<lparr>filename = ''&file.cc'',
         args = [''clang'', ''-working-directory'', ''/dir/'', ''-xc++'', ''-std=c++14'',
                 [], ''-O2'', ''-resource-dir=/w/resource_dir/'',
                 ''-Wno-unknown-warning-option'', ''-fparse-all-comments''],
         is_inferred = False\<rparr>, test_config)"
  by (simp add: classifier_eval)

text \<open>
  C10. The multi-token blacklist matches by prefix: a token that starts with one of its
  flags without being equal to it, met by the argument loop outside a path value, is
  dropped together with the token that follows it, although the fused token holds its
  value already. The raw list is \<open>pre\<close>, the token, its follower and \<open>rest\<close>; the scan
  for the compiler ends inside \<open>pre\<close> and the tokens of \<open>pre\<close> after the compiler are
  consumed exactly. The follower must not look like a working-directory, \<open>-x\<close> or
  \<open>-std=\<close> flag, which the guards of the injected flags would still see.
\<close>

theorem fused_multi_token_flag_dropped:
  assumes "f \<in> set kBlacklistMulti" and "StartsWith tok f" and "tok \<noteq> f"
    and "compiler_loop pf (NormalizePathWithTestOptOut pf (file entry)) (pre @ rest) 0
           \<le> length pre"
    and "consumed_exactly
           (drop (compiler_loop pf (NormalizePathWithTestOptOut pf (file entry)) (pre @ rest) 0)
              pre)"
    and "\<not> StartsWith nxt ''-working-directory''"
    and "\<not> StartsWith nxt ''-x''"
    and "\<not> StartsWith nxt ''-std=''"
  shows "GetCompilationEntryFromCompileCommandEntry pf config
           (entry\<lparr>args_raw := pre @ tok # nxt # rest\<rparr>) =
         GetCompilationEntryFromCompileCommandEntry pf config (entry\<lparr>args_raw := pre @ rest\<rparr>)"
  using classifier_drop_pair [OF StartsWithAny_mem [OF assms(1,2)] assms(4-8)] .

text \<open>
  \<open>-MFdeps.d\<close> takes \<open>-DNDEBUG\<close> with it.
\<close>

theorem fused_multi_token_flag_dropped_witness:
  "''-MF'' \<in> set kBlacklistMulti \<and> StartsWith ''-MFdeps.d'' ''-MF'' \<and> ''-MFdeps.d'' \<noteq> ''-MF'' \<and>
   compiler_loop test_platform (NormalizePathWithTestOptOut test_platform (file (test_entry [])))
     ([''clang''] @ [''-O2'']) 0 \<le> length [''clang''] \<and>
   consumed_exactly
     (drop (compiler_loop test_platform
              (NormalizePathWithTestOptOut test_platform (file (test_entry [])))
              ([''clang''] @ [''-O2'']) 0)
        [''clang'']) \<and>
   \<not> StartsWith ''-DNDEBUG'' ''-working-directory'' \<and> \<not> StartsWith ''-DNDEBUG'' ''-x'' \<and>
   \<not> StartsWith ''-DNDEBUG'' ''-std='' \<and>
   GetCompilationEntryFromCompileCommandEntry test_platform test_config
     (test_entry [''clang'', ''-MFdeps.d'', ''-DNDEBUG'', ''-O2'']) =
   Inr (\<lparr>filename = ''&file.cc'',
         args = [''clang'', ''-working-directory'', ''/dir/'', ''-xc++'', ''-std=c++14'',
                 ''-O2'', ''-resource-dir=/w/resource_dir/'',
                 ''-Wno-unknown-warning-option'', ''-fparse-all-comments''],
         is_inferred = False\<rparr>, test_config)"
proof -
  let ?i = "compiler_loop test_platform
              (NormalizePathWithTestOptOut test_platform (file (test_entry [])))
              ([''clang''] @ [''-O2'']) 0"
  have 1: "''-MF'' \<in> set kBlacklistMulti" "StartsWith ''-MFdeps.d'' ''-MF''"
    "''-MFdeps.d'' \<noteq> ''-MF''"
    by (simp_all add: kBlacklistMulti_def StartsWith_def)
  have i: "?i = 1"
    by (simp add: compiler_loop_0 is_command_token_def char_at_def
        NormalizePathWithTestOptOut_def test_platform_def test_entry_def)
  have 2: "?i \<le> length [''clang'']" unfolding i by simp
  have 3: "consumed_exactly (drop ?i [''clang''])"
    unfolding i by simp
  have 4: "\<not> StartsWith ''-DNDEBUG'' ''-working-directory''" "\<not> StartsWith ''-DNDEBUG'' ''-x''"
    "\<not> StartsWith ''-DNDEBUG'' ''-std=''"
    by (simp_all add: StartsWith_def)
  have "GetCompilationEntryFromCompileCommandEntry test_platform test_config
          (test_entry [''clang'', ''-MFdeps.d'', ''-DNDEBUG'', ''-O2'']) =
        GetCompilationEntryFromCompileCommandEntry test_platform test_config
          (test_entry [''clang'', ''-O2''])"
    using fused_multi_token_flag_dropped [OF 1 2 3 4, of test_config]
    by (simp add: test_entry_def)
  also have "\<dots> = Inr (\<lparr>filename = ''&file.cc'',
         args = [''clang'', ''-working-directory'', ''/dir/'', ''-xc++'', ''-std=c++14'',
                 ''-O2'', ''-resource-dir=/w/resource_dir/'',
                 ''-Wno-unknown-warning-option'', ''-fparse-all-comments''],
         is_inferred = False\<rparr>, test_config)"
    by (simp add: classifier_eval)
  finally show ?thesis using 1 2 3 4 by blast
qed

text \<open>
  A token that starts with \<open>-MF\<close> whose follower is kept: \<open>-ofoo.o\<close> takes
  \<open>-MFdeps.d\<close> with it, and \<open>-DNDEBUG\<close> is an ordinary token.
\<close>

theorem fused_flag_follower_kept_counterexample:
  "GetCompilationEntryFromCompileCommandEntry test_platform test_config
     (test_entry [''clang'', ''-ofoo.o'', ''-MFdeps.d'', ''-DNDEBUG'']) =
   Inr (\<lparr>filename = ''&file.cc'',
         args = [''clang'', ''-working-directory'', ''/dir/'', ''-xc++'', ''-std=c++14'',
                 ''-DNDEBUG'', ''-resource-dir=/w/resource_dir/'',
                 ''-Wno-unknown-warning-option'', ''-fparse-all-comments''],
         is_inferred = False\<rparr>, test_config)"
  by (simp add: classifier_eval)

end
